theory Spec2Isabelle
  imports Main "HOL-Library.Word"
begin

section \<open>Errors and array containers\<close>

text \<open>
  The three functions of \<^verbatim>\<open>allel/stats/mendel.py\<close> raise on bad input. Every raise
  is a value of this type: \<open>DiploidOnly\<close> is \<^verbatim>\<open>err_diploid_only()\<close>,
  \<open>TwoHaplotypesRequired\<close> and \<open>ThreeSamplesRequired\<close> are the two \<^verbatim>\<open>ValueError\<close>s
  raised by the source itself. \<open>ZeroSizeReduction\<close> is numpy's \<^verbatim>\<open>ValueError\<close> for
  \<^verbatim>\<open>max()\<close> of an array without elements, \<open>IndexOutOfBounds\<close> numpy's
  \<^verbatim>\<open>IndexError\<close> for \<^verbatim>\<open>parent_gc[:, 1]\<close> on an axis shorter than two.
\<close>

datatype error =
  DiploidOnly
  | TwoHaplotypesRequired
  | ThreeSamplesRequired nat
  | ZeroSizeReduction
  | IndexOutOfBounds

datatype dtype = Int8 | Int16 | Int32 | Int64

text \<open>
  A genotype array: the numpy shape \<open>(n_variants, n_samples, ploidy)\<close>, the element
  type, and the entries as nested lists. The shape is kept beside the entries because
  an array without variants still has a ploidy.
\<close>

record garray =
  dtype_of :: dtype
  n_variants :: nat
  n_samples :: nat
  ploidy :: nat
  calls :: "int list list list"

definition wf_garray :: "garray \<Rightarrow> bool" where
  "wf_garray g \<longleftrightarrow>
     length (calls g) = n_variants g \<and>
     list_all (\<lambda>row. length row = n_samples g \<and>
                      list_all (\<lambda>c. length c = ploidy g) row) (calls g)"

text \<open>A haplotype array: shape \<open>(n_variants, n_haplotypes)\<close> and the entries.\<close>

record harray =
  h_variants :: nat
  n_haplotypes :: nat
  haps :: "int list list"

definition wf_harray :: "harray \<Rightarrow> bool" where
  "wf_harray h \<longleftrightarrow>
     length (haps h) = h_variants h \<and>
     list_all (\<lambda>row. length row = n_haplotypes h) (haps h)"

section \<open>Array operations used by the source\<close>

text \<open>\<^verbatim>\<open>a.max()\<close>: the largest entry; numpy raises on an array without elements.\<close>

definition amax :: "garray \<Rightarrow> error + int" where
  "amax g = (case concat (concat (calls g)) of
               [] \<Rightarrow> Inl ZeroSizeReduction
             | x # xs \<Rightarrow> Inr (fold max xs x))"

text \<open>
  A reduction such as \<^verbatim>\<open>a.max()\<close> returns a numpy scalar: a value together with the
  element type of its array. Python's \<^verbatim>\<open>max(a, b)\<close> returns \<open>b\<close> when \<open>b\<close> is
  greater and \<open>a\<close> otherwise, so the result keeps the element type of the scalar it
  picks. Adding the Python integer 1 to a numpy scalar stays in the scalar's element
  type and wraps around at its bounds.
\<close>

definition wrap_dtype :: "dtype \<Rightarrow> int \<Rightarrow> int" where
  "wrap_dtype t x =
     (case t of
        Int8 \<Rightarrow> sint (word_of_int x :: 8 word)
      | Int16 \<Rightarrow> sint (word_of_int x :: 16 word)
      | Int32 \<Rightarrow> sint (word_of_int x :: 32 word)
      | Int64 \<Rightarrow> sint (word_of_int x :: 64 word))"

definition scalar_max :: "int \<times> dtype \<Rightarrow> int \<times> dtype \<Rightarrow> int \<times> dtype" where
  "scalar_max a b = (if fst a < fst b then b else a)"

definition scalar_succ :: "int \<times> dtype \<Rightarrow> int" where
  "scalar_succ a = wrap_dtype (snd a) (fst a + 1)"

text \<open>
  Modelled from the spec: \<^verbatim>\<open>GenotypeArray.to_allele_counts\<close> is not under src/. The
  spec's data model gives it: per call, a vector over the allele universe holding the
  count of each allele in that call. A missing entry is no allele of the universe and
  counts for nothing.
\<close>

definition allele_counts :: "int list \<Rightarrow> int list \<Rightarrow> int list" where
  "allele_counts alleles c = map (\<lambda>a. int (count_list c a)) alleles"

definition to_allele_counts :: "int list \<Rightarrow> garray \<Rightarrow> int list list list" where
  "to_allele_counts alleles g = map (map (allele_counts alleles)) (calls g)"

text \<open>
  Modelled from the spec: \<^verbatim>\<open>GenotypeArray.is_missing\<close> is not under src/. The spec's
  data model gives it: a call is missing iff any of its entries is the (negative)
  sentinel. The result has shape \<open>(n_variants, n_samples)\<close>.
\<close>

definition call_is_missing :: "int list \<Rightarrow> bool" where
  "call_is_missing c = list_ex (\<lambda>a. a < 0) c"

definition is_missing :: "garray \<Rightarrow> bool list list" where
  "is_missing g = map (map call_is_missing) (calls g)"

text \<open>\<^verbatim>\<open>np.any(m, axis=1)\<close> and \<^verbatim>\<open>np.all(m, axis=1)\<close> on a two-dimensional mask.\<close>

definition any_axis1 :: "bool list list \<Rightarrow> bool list" where
  "any_axis1 m = map (list_ex id) m"

text \<open>\<^verbatim>\<open>a.sum(axis=1)\<close> on one variant's block of \<open>k\<close>-vectors: the vector of column sums.\<close>

definition sum_vectors :: "nat \<Rightarrow> int list list \<Rightarrow> int list" where
  "sum_vectors k vs = map (\<lambda>i. sum_list (map (\<lambda>v. v ! i) vs)) [0..<k]"

text \<open>
  \<^verbatim>\<open>a[mask] = x\<close> with a mask of the shape of \<open>a\<close>, and with a one-dimensional mask
  over the first axis, which selects whole rows.
\<close>

definition mask_set :: "bool list list \<Rightarrow> 'a \<Rightarrow> 'a list list \<Rightarrow> 'a list list" where
  "mask_set msk x a = map2 (map2 (\<lambda>m y. if m then x else y)) msk a"

definition row_mask_set :: "bool list \<Rightarrow> 'a \<Rightarrow> 'a list list \<Rightarrow> 'a list list" where
  "row_mask_set msk x a = map2 (\<lambda>m row. if m then map (\<lambda>_. x) row else row) msk a"

section \<open>mendel_errors\<close>

text \<open>
  \<^verbatim>\<open>max_progeny_gc = parent_gc.clip(max=1).sum(axis=1)\<close>: per variant and allele, the
  parents' counts clipped to at most 1 and summed over the parent axis. \<open>k\<close> is the
  number of alleles of the universe.
\<close>

definition max_progeny_gc :: "nat \<Rightarrow> int list list list \<Rightarrow> int list list" where
  "max_progeny_gc k parent_gc =
     map (\<lambda>row. sum_vectors k (map (map (\<lambda>x. min x 1)) row)) parent_gc"

text \<open>
  \<^verbatim>\<open>me = (progeny_gc - max_progeny_gc[:, np.newaxis, :]).clip(min=0).sum(axis=2)\<close>.
  The counts are at most the ploidy, so the \<^verbatim>\<open>i1\<close> element type never wraps and the
  sums are taken in numpy's default integer; they are integers here.
\<close>

definition me_base :: "int list list list \<Rightarrow> int list list \<Rightarrow> int list list" where
  "me_base progeny_gc mpg =
     map2 (\<lambda>row avail. map (\<lambda>c. sum_list (map (\<lambda>d. max d 0) (map2 (-) c avail))) row)
       progeny_gc mpg"

text \<open>
  Lines 204 to 212: \<open>p1_gc\<close> and \<open>p2_gc\<close> are the first two parent columns,
  \<open>no_shared_alleles\<close> marks the variants where no allele has a positive count in
  both, and the cells of \<open>me\<close> whose progeny count vector equals either parent's on
  such a variant are set to 1.
\<close>

definition vec_eq :: "int list \<Rightarrow> int list \<Rightarrow> bool" where
  "vec_eq c p = list_all (\<lambda>(x, y). x = y) (zip c p)"

definition no_shared_alleles :: "int list list list \<Rightarrow> bool list" where
  "no_shared_alleles parent_gc =
     map (\<lambda>row. \<not> list_ex (\<lambda>(x, y). x > 0 \<and> y > 0) (zip (row ! 0) (row ! 1))) parent_gc"

definition uniparental_mask :: "int list list list \<Rightarrow> int list list list \<Rightarrow> bool list list" where
  "uniparental_mask parent_gc progeny_gc =
     map2 (\<lambda>(ns, prow) row. map (\<lambda>c. ns \<and> (vec_eq c (prow ! 0) \<or> vec_eq c (prow ! 1))) row)
       (zip (no_shared_alleles parent_gc) parent_gc) progeny_gc"

definition me_uniparental ::
  "int list list list \<Rightarrow> int list list list \<Rightarrow> int list list \<Rightarrow> int list list" where
  "me_uniparental parent_gc progeny_gc me =
     mask_set (uniparental_mask parent_gc progeny_gc) 1 me"

text \<open>Line 215: \<^verbatim>\<open>me[np.any(parent_genotypes.is_missing(), axis=1)] = 0\<close>.\<close>

definition me_retrofit :: "garray \<Rightarrow> int list list \<Rightarrow> int list list" where
  "me_retrofit parent_genotypes me =
     row_mask_set (any_axis1 (is_missing parent_genotypes)) 0 me"

text \<open>
  Lines 182 to 217. \<open>max_allele\<close> is a numpy scalar, so \<^verbatim>\<open>max_allele + 1\<close> of line
  190 is taken in its element type: at the largest value of that type it wraps to the
  smallest, and \<^verbatim>\<open>range\<close> of a number that is not positive is empty.
  \<^verbatim>\<open>list(range(n))\<close> is \<open>[0..n - 1]\<close>.
\<close>

definition mendel_errors :: "garray \<Rightarrow> garray \<Rightarrow> error + int list list" where
  "mendel_errors parent_genotypes progeny_genotypes =
     (if ploidy parent_genotypes \<noteq> 2 \<or> ploidy progeny_genotypes \<noteq> 2 then Inl DiploidOnly
      else case amax parent_genotypes of
        Inl e \<Rightarrow> Inl e
      | Inr m1 \<Rightarrow>
        (case amax progeny_genotypes of
           Inl e \<Rightarrow> Inl e
         | Inr m2 \<Rightarrow>
           (let max_allele = scalar_max (m1, dtype_of parent_genotypes)
                                        (m2, dtype_of progeny_genotypes);
                alleles = [0..scalar_succ max_allele - 1];
                parent_gc = to_allele_counts alleles parent_genotypes;
                progeny_gc = to_allele_counts alleles progeny_genotypes;
                me = me_base progeny_gc (max_progeny_gc (length alleles) parent_gc)
            in if n_samples parent_genotypes < 2 then Inl IndexOutOfBounds
               else Inr (me_retrofit parent_genotypes
                          (me_uniparental parent_gc progeny_gc me)))))"

section \<open>paint_transmission\<close>

text \<open>The inheritance states; the painting is a \<^verbatim>\<open>uint8\<close> array.\<close>

definition INHERIT_UNDETERMINED :: "8 word" where
  "INHERIT_UNDETERMINED = 0"

definition INHERIT_PARENT1 :: "8 word" where
  "INHERIT_PARENT1 = 1"

definition INHERIT_PARENT2 :: "8 word" where
  "INHERIT_PARENT2 = 2"

definition INHERIT_NONSEG_REF :: "8 word" where
  "INHERIT_NONSEG_REF = 3"

definition INHERIT_NONSEG_ALT :: "8 word" where
  "INHERIT_NONSEG_ALT = 4"

definition INHERIT_NONPARENTAL :: "8 word" where
  "INHERIT_NONPARENTAL = 5"

definition INHERIT_PARENT_MISSING :: "8 word" where
  "INHERIT_PARENT_MISSING = 6"

definition INHERIT_MISSING :: "8 word" where
  "INHERIT_MISSING = 7"

text \<open>
  Modelled from the spec: \<^verbatim>\<open>GenotypeArray.is_hom_ref\<close>, \<^verbatim>\<open>is_het\<close> and
  \<^verbatim>\<open>is_hom_alt\<close> are not under src/. The spec's section 4.2 gives them: a
  heterozygous diplotype carries two different alleles, a homozygous one carries the
  same allele twice, the reference allele 0 or a non-reference allele.
\<close>

definition call_is_hom_ref :: "int list \<Rightarrow> bool" where
  "call_is_hom_ref c = list_all (\<lambda>a. a = 0) c"

definition call_is_het :: "int list \<Rightarrow> bool" where
  "call_is_het c = (case c of [] \<Rightarrow> False | a # rest \<Rightarrow> list_ex (\<lambda>b. b \<noteq> a) rest)"

definition call_is_hom_alt :: "int list \<Rightarrow> bool" where
  "call_is_hom_alt c = (case c of [] \<Rightarrow> False | a # rest \<Rightarrow> 0 < a \<and> list_all (\<lambda>b. b = a) rest)"

text \<open>
  Broadcasting: \<open>bc f a col\<close> combines an array of shape \<open>(n, p)\<close> with a column of
  shape \<open>(n, 1)\<close>, \<open>ew f a b\<close> two arrays of the same shape.
\<close>

definition bc :: "('a \<Rightarrow> 'b \<Rightarrow> 'c) \<Rightarrow> 'a list list \<Rightarrow> 'b list \<Rightarrow> 'c list list" where
  "bc f a col = map2 (\<lambda>row y. map (\<lambda>x. f x y) row) a col"

definition ew :: "('a \<Rightarrow> 'b \<Rightarrow> 'c) \<Rightarrow> 'a list list \<Rightarrow> 'b list list \<Rightarrow> 'c list list" where
  "ew f a b = map2 (map2 f) a b"

text \<open>The convenience variables of lines 287 to 296.\<close>

definition parent1 :: "harray \<Rightarrow> int list" where
  "parent1 parent_haplotypes = map (\<lambda>row. row ! 0) (haps parent_haplotypes)"

definition parent2 :: "harray \<Rightarrow> int list" where
  "parent2 parent_haplotypes = map (\<lambda>row. row ! 1) (haps parent_haplotypes)"

definition progeny_is_missing :: "harray \<Rightarrow> bool list list" where
  "progeny_is_missing progeny_haplotypes = map (map (\<lambda>x. x < 0)) (haps progeny_haplotypes)"

definition parent_is_missing :: "harray \<Rightarrow> bool list" where
  "parent_is_missing parent_haplotypes = map (list_ex (\<lambda>x. x < 0)) (haps parent_haplotypes)"

text \<open>
  \<^verbatim>\<open>parent_diplotype\<close> has one call per variant, the two parental haplotypes, so the
  three predicates are columns of shape \<open>(n, 1)\<close>.
\<close>

definition parent_is_hom_ref :: "harray \<Rightarrow> bool list" where
  "parent_is_hom_ref parent_haplotypes = map call_is_hom_ref (haps parent_haplotypes)"

definition parent_is_het :: "harray \<Rightarrow> bool list" where
  "parent_is_het parent_haplotypes = map call_is_het (haps parent_haplotypes)"

definition parent_is_hom_alt :: "harray \<Rightarrow> bool list" where
  "parent_is_hom_alt parent_haplotypes = map call_is_hom_alt (haps parent_haplotypes)"

text \<open>Lines 298 to 319: the masks of the inheritance states.\<close>

definition is_callable :: "harray \<Rightarrow> harray \<Rightarrow> bool list list" where
  "is_callable parent_haplotypes progeny_haplotypes =
     bc (\<lambda>m pm. \<not> m \<and> \<not> pm) (progeny_is_missing progeny_haplotypes)
        (parent_is_missing parent_haplotypes)"

definition is_callable_seg :: "harray \<Rightarrow> harray \<Rightarrow> bool list list" where
  "is_callable_seg parent_haplotypes progeny_haplotypes =
     bc (\<and>) (is_callable parent_haplotypes progeny_haplotypes) (parent_is_het parent_haplotypes)"

definition inherit_parent1 :: "harray \<Rightarrow> harray \<Rightarrow> bool list list" where
  "inherit_parent1 parent_haplotypes progeny_haplotypes =
     ew (\<and>) (is_callable_seg parent_haplotypes progeny_haplotypes)
        (bc (=) (haps progeny_haplotypes) (parent1 parent_haplotypes))"

definition inherit_parent2 :: "harray \<Rightarrow> harray \<Rightarrow> bool list list" where
  "inherit_parent2 parent_haplotypes progeny_haplotypes =
     ew (\<and>) (is_callable_seg parent_haplotypes progeny_haplotypes)
        (bc (=) (haps progeny_haplotypes) (parent2 parent_haplotypes))"

definition nonseg_ref :: "harray \<Rightarrow> harray \<Rightarrow> bool list list" where
  "nonseg_ref parent_haplotypes progeny_haplotypes =
     ew (\<and>) (bc (\<and>) (is_callable parent_haplotypes progeny_haplotypes)
                (parent_is_hom_ref parent_haplotypes))
        (bc (=) (haps progeny_haplotypes) (parent1 parent_haplotypes))"

definition nonseg_alt :: "harray \<Rightarrow> harray \<Rightarrow> bool list list" where
  "nonseg_alt parent_haplotypes progeny_haplotypes =
     ew (\<and>) (bc (\<and>) (is_callable parent_haplotypes progeny_haplotypes)
                (parent_is_hom_alt parent_haplotypes))
        (bc (=) (haps progeny_haplotypes) (parent1 parent_haplotypes))"

definition nonparental :: "harray \<Rightarrow> harray \<Rightarrow> bool list list" where
  "nonparental parent_haplotypes progeny_haplotypes =
     ew (\<and>) (ew (\<and>) (is_callable parent_haplotypes progeny_haplotypes)
                (bc (\<noteq>) (haps progeny_haplotypes) (parent1 parent_haplotypes)))
        (bc (\<noteq>) (haps progeny_haplotypes) (parent2 parent_haplotypes))"

text \<open>
  Lines 321 to 332: the painting starts at 0 and the seven masks are written in this
  order, so a later mask overwrites an earlier one. \<open>parent_is_missing\<close> is the
  one-dimensional mask and selects whole rows.
\<close>

definition paint_transmission :: "harray \<Rightarrow> harray \<Rightarrow> error + 8 word list list" where
  "paint_transmission parent_haplotypes progeny_haplotypes =
     (if n_haplotypes parent_haplotypes \<noteq> 2 then Inl TwoHaplotypesRequired
      else
        let painting = map (map (\<lambda>_. 0)) (haps progeny_haplotypes);
            painting = mask_set (inherit_parent1 parent_haplotypes progeny_haplotypes)
                         INHERIT_PARENT1 painting;
            painting = mask_set (inherit_parent2 parent_haplotypes progeny_haplotypes)
                         INHERIT_PARENT2 painting;
            painting = mask_set (nonseg_ref parent_haplotypes progeny_haplotypes)
                         INHERIT_NONSEG_REF painting;
            painting = mask_set (nonseg_alt parent_haplotypes progeny_haplotypes)
                         INHERIT_NONSEG_ALT painting;
            painting = mask_set (nonparental parent_haplotypes progeny_haplotypes)
                         INHERIT_NONPARENTAL painting;
            painting = row_mask_set (parent_is_missing parent_haplotypes)
                         INHERIT_PARENT_MISSING painting;
            painting = mask_set (progeny_is_missing progeny_haplotypes)
                         INHERIT_MISSING painting
        in Inr painting)"

section \<open>phase_progeny_by_transmission\<close>

text \<open>
  The phaser may write into the array it is given, so the arrays live in a heap: a
  list of arrays, an address being an index into it. A Python reference always points
  to an object: an address below the length of the heap. Allocation appends.
\<close>

type_synonym heap = "garray list"

text \<open>\<^verbatim>\<open>g.copy()\<close>: a new array with the same shape, element type and entries.\<close>

definition array_copy :: "heap \<Rightarrow> nat \<Rightarrow> heap \<times> nat" where
  "array_copy h g = (h @ [h ! g], length h)"

text \<open>
  \<^verbatim>\<open>g.astype('i1', copy=False)\<close>: numpy returns the array itself when it already has
  the element type, and otherwise a new array whose entries are cast to 8 bits, which
  wraps.
\<close>

definition to_int8 :: "int \<Rightarrow> int" where
  "to_int8 x = sint (word_of_int x :: 8 word)"

definition astype_i1 :: "heap \<Rightarrow> nat \<Rightarrow> heap \<times> nat" where
  "astype_i1 h g =
     (if dtype_of (h ! g) = Int8 then (h, g)
      else (h @ [(h ! g)\<lparr>dtype_of := Int8, calls := map (map (map to_int8)) (calls (h ! g))\<rparr>],
            length h))"

text \<open>
  Modelled from the spec: \<^verbatim>\<open>allel.opt.stats.phase_progeny_by_transmission_int8\<close> is
  not under src/. The spec's section 4.3 gives it. Each variant is handled alone, and
  in it each progeny alone: with any missing allele in the two parents or the progeny
  the call stays as it is, unphased. Otherwise the candidate orders of the two progeny
  alleles are kept when the first allele occurs in parent 1 and the second in parent
  2; the call is phased, and written in that order, exactly when one such order
  exists. The two parent columns of \<open>is_phased\<close> are false. The function writes into
  its argument and returns \<open>is_phased\<close>; here it returns both.
\<close>

definition phase_call :: "int list \<Rightarrow> int list \<Rightarrow> int list \<Rightarrow> int list \<times> bool" where
  "phase_call p1 p2 c =
     (if call_is_missing p1 \<or> call_is_missing p2 \<or> call_is_missing c then (c, False)
      else
        let a1 = c ! 0; a2 = c ! 1;
            solutions = remdups (filter (\<lambda>(x, y). x \<in> set p1 \<and> y \<in> set p2)
                                   [(a1, a2), (a2, a1)])
        in case solutions of [(x, y)] \<Rightarrow> ([x, y], True) | _ \<Rightarrow> (c, False))"

definition phase_variant :: "int list list \<Rightarrow> int list list \<times> bool list" where
  "phase_variant row =
     (let res = map (phase_call (row ! 0) (row ! 1)) (drop 2 row)
      in (take 2 row @ map fst res, [False, False] @ map snd res))"

definition phase_progeny_by_transmission_int8 ::
  "int list list list \<Rightarrow> int list list list \<times> bool list list" where
  "phase_progeny_by_transmission_int8 d =
     (map (\<lambda>row. fst (phase_variant row)) d, map (\<lambda>row. snd (phase_variant row)) d)"

text \<open>
  Modelled from the spec: the \<^verbatim>\<open>GenotypeArray\<close> wrapper is not under src/. By the
  spec's ownership rule the phaser works on the caller's array unless a copy is asked
  for, so wrapping keeps the address.

  The function returns the heap after the call and either the error raised or the
  address of the returned genotype array with \<open>is_phased\<close>.
\<close>

definition phase_progeny_by_transmission ::
  "heap \<Rightarrow> nat \<Rightarrow> bool \<Rightarrow> heap \<times> (error + nat \<times> bool list list)" where
  "phase_progeny_by_transmission h g copy =
     (if ploidy (h ! g) \<noteq> 2 then (h, Inl DiploidOnly)
      else if n_samples (h ! g) < 3 then (h, Inl (ThreeSamplesRequired (n_samples (h ! g))))
      else
        let (h, g) = (if copy then array_copy h g else (h, g));
            (h, g) = astype_i1 h g;
            (d, is_phased) = phase_progeny_by_transmission_int8 (calls (h ! g));
            h = h[g := (h ! g)\<lparr>calls := d\<rparr>]
        in (h, Inr (g, is_phased)))"

section \<open>Shapes, cell-wise readings and the spec's formulas\<close>

text \<open>
  The documented input of \<^verbatim>\<open>mendel_errors\<close>: parents of shape \<open>(n, 2, 2)\<close>, progeny
  of shape \<open>(n, n_progeny, 2)\<close>.
\<close>

definition mendel_shapes :: "garray \<Rightarrow> garray \<Rightarrow> bool" where
  "mendel_shapes pg cg \<longleftrightarrow>
     wf_garray pg \<and> wf_garray cg \<and> ploidy pg = 2 \<and> ploidy cg = 2 \<and>
     n_samples pg = 2 \<and> n_variants pg = n_variants cg"

text \<open>A diploid array from its entries and its number of samples.\<close>

definition diploid_array :: "nat \<Rightarrow> int list list list \<Rightarrow> garray" where
  "diploid_array ns d =
     \<lparr>dtype_of = Int64, n_variants = length d, n_samples = ns, ploidy = 2, calls = d\<rparr>"

text \<open>
  The allele universe \<^verbatim>\<open>list(range(max_allele + 1))\<close> that \<^verbatim>\<open>mendel_errors\<close> builds
  from the two maxima, as a function of the inputs, and the condition that
  \<^verbatim>\<open>max_allele + 1\<close> does not wrap: the largest allele code is below the largest value
  of the element type of the array that holds it.
\<close>

definition allele_universe :: "garray \<Rightarrow> garray \<Rightarrow> int list" where
  "allele_universe pg cg =
     (case amax pg of Inl _ \<Rightarrow> [] | Inr m1 \<Rightarrow>
        (case amax cg of Inl _ \<Rightarrow> [] | Inr m2 \<Rightarrow>
           [0..scalar_succ (scalar_max (m1, dtype_of pg) (m2, dtype_of cg)) - 1]))"

definition max_allele_fits :: "garray \<Rightarrow> garray \<Rightarrow> bool" where
  "max_allele_fits pg cg \<longleftrightarrow>
     (case amax pg of Inl _ \<Rightarrow> True | Inr m1 \<Rightarrow>
        (case amax cg of Inl _ \<Rightarrow> True | Inr m2 \<Rightarrow>
           scalar_succ (scalar_max (m1, dtype_of pg) (m2, dtype_of cg)) = max m1 m2 + 1))"

text \<open>
  The spec's steps 2 and 3 in its own words, for one cell. Availability: per allele,
  each parent's count clipped to at most 1, summed over the two parents. Base count:
  the progeny's count vector minus the availability, negatives clipped to 0, summed
  over the alleles.
\<close>

definition spec_availability :: "int list \<Rightarrow> int list \<Rightarrow> int list \<Rightarrow> int list" where
  "spec_availability alleles p1 p2 =
     map (\<lambda>a. min (int (count_list p1 a)) 1 + min (int (count_list p2 a)) 1) alleles"

definition spec_base_count :: "int list \<Rightarrow> int list \<Rightarrow> int list \<Rightarrow> int list \<Rightarrow> int" where
  "spec_base_count alleles p1 p2 c =
     sum_list (map (\<lambda>d. max d 0)
                 (map2 (-) (allele_counts alleles c) (spec_availability alleles p1 p2)))"

text \<open>
  The progeny's allele multiset lies within the availability: no allele is counted
  more often in the call than it is available.
\<close>

definition within_availability :: "int list \<Rightarrow> int list \<Rightarrow> int list \<Rightarrow> int list \<Rightarrow> bool" where
  "within_availability alleles p1 p2 c =
     list_all2 (\<le>) (allele_counts alleles c) (spec_availability alleles p1 p2)"

text \<open>
  Two calls share an allele: some allele (not the missing sentinel) occurs in both.
  \<open>shares_allele\<close> is the same question asked over a given universe, as line 207
  asks it.
\<close>

definition share_an_allele :: "int list \<Rightarrow> int list \<Rightarrow> bool" where
  "share_an_allele p1 p2 = list_ex (\<lambda>a. 0 \<le> a \<and> a \<in> set p2) p1"

definition shares_allele :: "int list \<Rightarrow> int list \<Rightarrow> int list \<Rightarrow> bool" where
  "shares_allele alleles p1 p2 = list_ex (\<lambda>a. a \<in> set p1 \<and> a \<in> set p2) alleles"

text \<open>
  What the three assignments to \<open>me\<close> leave in one cell, read from the last one
  backwards. \<open>mendel_errors_cell\<close> below proves that the array program computes it.
\<close>

definition me_cell :: "int list \<Rightarrow> int list \<Rightarrow> int list \<Rightarrow> int list \<Rightarrow> int" where
  "me_cell alleles p1 p2 c =
     (if call_is_missing p1 \<or> call_is_missing p2 then 0
      else if \<not> shares_allele alleles p1 p2 \<and>
              (allele_counts alleles c = allele_counts alleles p1 \<or>
               allele_counts alleles c = allele_counts alleles p2) then 1
      else spec_base_count alleles p1 p2 c)"

text \<open>
  The documented input of \<^verbatim>\<open>paint_transmission\<close>: two parental haplotypes and any
  number of progeny haplotypes over the same variants.
\<close>

definition paint_shapes :: "harray \<Rightarrow> harray \<Rightarrow> bool" where
  "paint_shapes ph ch \<longleftrightarrow>
     wf_harray ph \<and> wf_harray ch \<and> n_haplotypes ph = 2 \<and> h_variants ph = h_variants ch"

text \<open>An array of \<open>n\<close> rows of \<open>p\<close> entries each.\<close>

definition shaped :: "nat \<Rightarrow> nat \<Rightarrow> 'a list list \<Rightarrow> bool" where
  "shaped n p a \<longleftrightarrow> length a = n \<and> list_all (\<lambda>row. length row = p) a"

text \<open>
  What the seven assignments to \<open>painting\<close> leave in one cell, read from the last one
  backwards; \<open>pr\<close> is the parent's row, \<open>x\<close> the progeny allele.
  \<open>paint_transmission_cell\<close> below proves that the array program computes it.
\<close>

definition paint_cell :: "int list \<Rightarrow> int \<Rightarrow> 8 word" where
  "paint_cell pr x =
     (let pm = list_ex (\<lambda>y. y < 0) pr; callable = \<not> x < 0 \<and> \<not> pm
      in if x < 0 then INHERIT_MISSING
         else if pm then INHERIT_PARENT_MISSING
         else if callable \<and> x \<noteq> pr ! 0 \<and> x \<noteq> pr ! 1 then INHERIT_NONPARENTAL
         else if callable \<and> call_is_hom_alt pr \<and> x = pr ! 0 then INHERIT_NONSEG_ALT
         else if callable \<and> call_is_hom_ref pr \<and> x = pr ! 0 then INHERIT_NONSEG_REF
         else if callable \<and> call_is_het pr \<and> x = pr ! 1 then INHERIT_PARENT2
         else if callable \<and> call_is_het pr \<and> x = pr ! 0 then INHERIT_PARENT1
         else INHERIT_UNDETERMINED)"

text \<open>Arrays from their entries, for the examples.\<close>

definition haplotype_array :: "nat \<Rightarrow> int list list \<Rightarrow> harray" where
  "haplotype_array nh d = \<lparr>h_variants = length d, n_haplotypes = nh, haps = d\<rparr>"

definition genotype_array :: "dtype \<Rightarrow> nat \<Rightarrow> nat \<Rightarrow> int list list list \<Rightarrow> garray" where
  "genotype_array t ns pl d =
     \<lparr>dtype_of = t, n_variants = length d, n_samples = ns, ploidy = pl, calls = d\<rparr>"

section \<open>Reading the array program cell by cell\<close>

lemma wf_row_length: "wf_garray g \<Longrightarrow> v < n_variants g \<Longrightarrow> length (calls g ! v) = n_samples g"
  by (simp add: wf_garray_def list_all_length)

lemma wf_call_length:
  "wf_garray g \<Longrightarrow> v < n_variants g \<Longrightarrow> s < n_samples g \<Longrightarrow> length (calls g ! v ! s) = ploidy g"
  by (simp add: wf_garray_def list_all_length)

lemma wf_length: "wf_garray g \<Longrightarrow> length (calls g) = n_variants g"
  by (simp add: wf_garray_def)

lemma to_allele_counts_length [simp]: "length (to_allele_counts al g) = length (calls g)"
  by (simp add: to_allele_counts_def)

lemma to_allele_counts_row:
  "v < length (calls g) \<Longrightarrow> to_allele_counts al g ! v = map (allele_counts al) (calls g ! v)"
  by (simp add: to_allele_counts_def)

lemma allele_counts_length [simp]: "length (allele_counts al c) = length al"
  by (simp add: allele_counts_def)

lemma pair_row: "length (row :: 'a list) = 2 \<Longrightarrow> row = [row ! 0, row ! 1]"
  by (cases row; cases "tl row") auto

lemma sum_vectors_pair:
  "length x = k \<Longrightarrow> length y = k \<Longrightarrow> sum_vectors k [x, y] = map2 (+) x y"
  by (auto simp: sum_vectors_def intro!: nth_equalityI)

lemma availability_row:
  assumes "length row = 2"
  shows "sum_vectors (length al) (map (map (\<lambda>x. min x 1)) (map (allele_counts al) row))
         = spec_availability al (row ! 0) (row ! 1)"
proof -
  have "row = [row ! 0, row ! 1]" using assms by (rule pair_row)
  then obtain a b where r: "row = [a, b]" by blast
  show ?thesis
    by (auto simp: r sum_vectors_def spec_availability_def allele_counts_def intro!: nth_equalityI)
qed

lemma max_progeny_gc_row:
  assumes "wf_garray pg" "n_samples pg = 2" "v < n_variants pg"
  shows "max_progeny_gc (length al) (to_allele_counts al pg) ! v
         = spec_availability al (calls pg ! v ! 0) (calls pg ! v ! 1)"
proof -
  have len: "length (calls pg ! v) = 2"
    using assms by (simp add: wf_row_length)
  have "max_progeny_gc (length al) (to_allele_counts al pg) ! v
        = sum_vectors (length al) (map (map (\<lambda>x. min x 1)) (map (allele_counts al) (calls pg ! v)))"
    using assms by (simp add: max_progeny_gc_def wf_length to_allele_counts_row del: map_map)
  then show ?thesis
    by (simp only: availability_row [OF len])
qed

lemma me_base_cell:
  assumes "v < length pgc" "v < length mpg" "j < length (pgc ! v)"
  shows "me_base pgc mpg ! v ! j = sum_list (map (\<lambda>d. max d 0) (map2 (-) (pgc ! v ! j) (mpg ! v)))"
  using assms by (simp add: me_base_def)

lemma me_base_refines:
  assumes "mendel_shapes pg cg" "v < n_variants cg" "j < n_samples cg"
  shows "me_base (to_allele_counts al cg) (max_progeny_gc (length al) (to_allele_counts al pg)) ! v ! j
         = spec_base_count al (calls pg ! v ! 0) (calls pg ! v ! 1) (calls cg ! v ! j)"
proof -
  from assms have wf: "wf_garray pg" "wf_garray cg" "n_samples pg = 2" "v < n_variants pg"
    by (simp_all add: mendel_shapes_def)
  have len: "length (max_progeny_gc (length al) (to_allele_counts al pg)) = n_variants pg"
    by (simp add: max_progeny_gc_def wf_length [OF wf(1)])
  have row: "length (calls cg ! v) = n_samples cg"
    using wf(2) assms(2) by (rule wf_row_length)
  show ?thesis
    using assms(2,3) wf len row
    by (simp add: me_base_cell wf_length to_allele_counts_row max_progeny_gc_row spec_base_count_def)
qed

lemma vec_eq_iff: "length c = length p \<Longrightarrow> vec_eq c p \<longleftrightarrow> c = p"
  by (simp add: vec_eq_def list_all_length list_eq_iff_nth_eq)

lemma shared_count_iff:
  "list_ex (\<lambda>(x, y). x > 0 \<and> y > 0) (zip (allele_counts al p1) (allele_counts al p2))
   \<longleftrightarrow> shares_allele al p1 p2"
proof -
  have "zip (allele_counts al p1) (allele_counts al p2)
        = map (\<lambda>a. (int (count_list p1 a), int (count_list p2 a))) al"
    by (simp add: allele_counts_def zip_map_map zip_same_conv_map)
  moreover have "\<And>xs (x::int). 0 < count_list xs x \<longleftrightarrow> x \<in> set xs"
    by (metis count_list_0_iff gr0I less_numeral_extra(3))
  ultimately show ?thesis
    by (simp add: shares_allele_def list_ex_iff Bex_def)
qed

lemma mask_set_cell:
  "v < length msk \<Longrightarrow> v < length a \<Longrightarrow> j < length (msk ! v) \<Longrightarrow> j < length (a ! v) \<Longrightarrow>
   mask_set msk x a ! v ! j = (if msk ! v ! j then x else a ! v ! j)"
  by (simp add: mask_set_def)

lemma row_mask_set_cell:
  "v < length msk \<Longrightarrow> v < length a \<Longrightarrow> j < length (a ! v) \<Longrightarrow>
   row_mask_set msk x a ! v ! j = (if msk ! v then x else a ! v ! j)"
  by (simp add: row_mask_set_def)

lemma mask_set_length [simp]: "length (mask_set msk x a) = min (length msk) (length a)"
  by (simp add: mask_set_def)

lemma mask_set_row_length:
  "v < length msk \<Longrightarrow> v < length a \<Longrightarrow>
   length (mask_set msk x a ! v) = min (length (msk ! v)) (length (a ! v))"
  by (simp add: mask_set_def)

lemma me_base_length [simp]: "length (me_base pgc mpg) = min (length pgc) (length mpg)"
  by (simp add: me_base_def)

lemma me_base_row_length:
  "v < length pgc \<Longrightarrow> v < length mpg \<Longrightarrow> length (me_base pgc mpg ! v) = length (pgc ! v)"
  by (simp add: me_base_def)

lemma max_progeny_gc_length [simp]: "length (max_progeny_gc k pgc) = length pgc"
  by (simp add: max_progeny_gc_def)

lemma parents_missing_row:
  assumes "wf_garray pg" "n_samples pg = 2" "v < n_variants pg"
  shows "any_axis1 (is_missing pg) ! v
         \<longleftrightarrow> call_is_missing (calls pg ! v ! 0) \<or> call_is_missing (calls pg ! v ! 1)"
proof -
  have len: "length (calls pg ! v) = 2"
    using assms by (simp add: wf_row_length)
  then obtain a b where r: "calls pg ! v = [a, b]"
    using pair_row by blast
  show ?thesis
    using assms by (simp add: any_axis1_def is_missing_def wf_length r)
qed

lemma uniparental_mask_cell:
  assumes "wf_garray pg" "wf_garray cg" "n_samples pg = 2" "n_variants pg = n_variants cg"
    "v < n_variants cg" "j < n_samples cg"
  shows "uniparental_mask (to_allele_counts al pg) (to_allele_counts al cg) ! v ! j
         \<longleftrightarrow> \<not> shares_allele al (calls pg ! v ! 0) (calls pg ! v ! 1) \<and>
             (allele_counts al (calls cg ! v ! j) = allele_counts al (calls pg ! v ! 0) \<or>
              allele_counts al (calls cg ! v ! j) = allele_counts al (calls pg ! v ! 1))"
proof -
  have len: "length (calls pg ! v) = 2"
    using assms by (simp add: wf_row_length)
  then obtain a b where r: "calls pg ! v = [a, b]"
    using pair_row by blast
  have crow: "length (calls cg ! v) = n_samples cg"
    using assms by (simp add: wf_row_length)
  show ?thesis
    using assms crow
    by (simp add: uniparental_mask_def no_shared_alleles_def wf_length to_allele_counts_row r
        shared_count_iff vec_eq_iff)
qed

lemma uniparental_mask_shape:
  assumes "wf_garray pg" "wf_garray cg" "n_variants pg = n_variants cg" "v < n_variants cg"
  shows "length (uniparental_mask (to_allele_counts al pg) (to_allele_counts al cg)) = n_variants cg"
    and "length (uniparental_mask (to_allele_counts al pg) (to_allele_counts al cg) ! v) = n_samples cg"
  using assms
  by (simp_all add: uniparental_mask_def no_shared_alleles_def wf_length to_allele_counts_row
      wf_row_length)

lemma fold_max_ge: "x \<in> set (y # ys) \<Longrightarrow> x \<le> fold max ys (y::int)"
  by (metis Max.set_eq_fold Max_ge List.finite_set)

lemma amax_Inr:
  assumes "v < length (calls g)" "s < length (calls g ! v)" "a \<in> set (calls g ! v ! s)"
  shows "\<exists>m. amax g = Inr m \<and> a \<le> m"
proof -
  have "calls g ! v ! s \<in> set (calls g ! v)" "calls g ! v \<in> set (calls g)"
    using assms by simp_all
  then have mem: "a \<in> set (concat (concat (calls g)))"
    using assms(3) by auto
  then obtain y ys where c: "concat (concat (calls g)) = y # ys"
    by (cases "concat (concat (calls g))") auto
  with mem have "a \<le> fold max ys y"
    by (simp only: fold_max_ge)
  then show ?thesis
    by (simp add: amax_def c)
qed

lemma shapes_elems:
  assumes "mendel_shapes pg cg" "v < n_variants cg" "j < n_samples cg"
  shows "v < length (calls pg)" "0 < length (calls pg ! v)" "1 < length (calls pg ! v)"
    "length (calls pg ! v ! 0) = 2" "length (calls pg ! v ! 1) = 2"
    "v < length (calls cg)" "j < length (calls cg ! v)" "length (calls cg ! v ! j) = 2"
  using assms
  by (simp_all add: mendel_shapes_def wf_length wf_row_length wf_call_length)

lemma amax_both:
  assumes "mendel_shapes pg cg" "v < n_variants cg" "j < n_samples cg"
  shows "\<exists>m1 m2. amax pg = Inr m1 \<and> amax cg = Inr m2 \<and>
           allele_universe pg cg
             = [0..scalar_succ (scalar_max (m1, dtype_of pg) (m2, dtype_of cg)) - 1] \<and>
           (max_allele_fits pg cg \<longrightarrow> allele_universe pg cg = [0..max m1 m2]) \<and>
           (\<forall>a \<in> set (calls pg ! v ! 0). a \<le> m1) \<and>
           (\<forall>a \<in> set (calls pg ! v ! 1). a \<le> m1) \<and>
           (\<forall>a \<in> set (calls cg ! v ! j). a \<le> m2)"
proof -
  note e = shapes_elems [OF assms]
  have p0: "calls pg ! v ! 0 ! 0 \<in> set (calls pg ! v ! 0)"
    using e(4) by simp
  obtain m1 where m1: "amax pg = Inr m1"
    using amax_Inr [OF e(1) e(2) p0] by blast
  have c0: "calls cg ! v ! j ! 0 \<in> set (calls cg ! v ! j)"
    using e(8) by simp
  obtain m2 where m2: "amax cg = Inr m2"
    using amax_Inr [OF e(6) e(7) c0] by blast
  have b1: "\<forall>a \<in> set (calls pg ! v ! 0). a \<le> m1"
    using amax_Inr [OF e(1) e(2)] m1 by auto
  have b2: "\<forall>a \<in> set (calls pg ! v ! 1). a \<le> m1"
    using amax_Inr [OF e(1) e(3)] m1 by auto
  have b3: "\<forall>a \<in> set (calls cg ! v ! j). a \<le> m2"
    using amax_Inr [OF e(6) e(7)] m2 by auto
  show ?thesis
    using m1 m2 b1 b2 b3 by (simp add: allele_universe_def max_allele_fits_def)
qed

lemma mendel_errors_cell:
  assumes "mendel_shapes pg cg" "v < n_variants cg" "j < n_samples cg"
  shows "\<exists>me. mendel_errors pg cg = Inr me \<and>
           me ! v ! j = me_cell (allele_universe pg cg)
                          (calls pg ! v ! 0) (calls pg ! v ! 1) (calls cg ! v ! j)"
proof -
  obtain m1 m2 where m: "amax pg = Inr m1" "amax cg = Inr m2"
      "allele_universe pg cg
         = [0..scalar_succ (scalar_max (m1, dtype_of pg) (m2, dtype_of cg)) - 1]"
    using amax_both [OF assms] by blast
  define al where "al = [0..scalar_succ (scalar_max (m1, dtype_of pg) (m2, dtype_of cg)) - 1]"
  define pgc where "pgc = to_allele_counts al pg"
  define cgc where "cgc = to_allele_counts al cg"
  define me0 where "me0 = me_base cgc (max_progeny_gc (length al) pgc)"
  define me1 where "me1 = me_uniparental pgc cgc me0"
  from assms have wf: "wf_garray pg" "wf_garray cg" "n_samples pg = 2"
      "n_variants pg = n_variants cg" "ploidy pg = 2" "ploidy cg = 2" "v < n_variants pg"
    by (simp_all add: mendel_shapes_def)
  have res: "mendel_errors pg cg = Inr (me_retrofit pg me1)"
    using wf(3,5,6) m(1,2)
    by (simp add: mendel_errors_def Let_def me1_def me0_def pgc_def cgc_def al_def)
  have crow: "length (calls cg ! v) = n_samples cg"
    using wf(2) assms(2) by (rule wf_row_length)
  have l0: "length me0 = n_variants cg" "length (me0 ! v) = n_samples cg"
    using wf assms(2) crow
    by (simp_all add: me0_def pgc_def cgc_def wf_length me_base_row_length to_allele_counts_row)
  have c0: "me0 ! v ! j = spec_base_count al (calls pg ! v ! 0) (calls pg ! v ! 1) (calls cg ! v ! j)"
    unfolding me0_def pgc_def cgc_def by (rule me_base_refines [OF assms])
  note ms = uniparental_mask_shape [OF wf(1,2,4) assms(2), of al]
  have l1: "length me1 = n_variants cg" "length (me1 ! v) = n_samples cg"
    using l0 ms assms(2)
    by (simp_all add: me1_def me_uniparental_def pgc_def cgc_def mask_set_row_length)
  have c1: "me1 ! v ! j =
      (if \<not> shares_allele al (calls pg ! v ! 0) (calls pg ! v ! 1) \<and>
          (allele_counts al (calls cg ! v ! j) = allele_counts al (calls pg ! v ! 0) \<or>
           allele_counts al (calls cg ! v ! j) = allele_counts al (calls pg ! v ! 1))
       then 1 else me0 ! v ! j)"
    using l0 ms assms(2,3)
    by (simp add: me1_def me_uniparental_def pgc_def cgc_def mask_set_cell
        uniparental_mask_cell [OF wf(1,2,3,4) assms(2,3)])
  have lm: "length (any_axis1 (is_missing pg)) = n_variants cg"
    using wf by (simp add: any_axis1_def is_missing_def wf_length)
  have c2: "me_retrofit pg me1 ! v ! j =
      (if call_is_missing (calls pg ! v ! 0) \<or> call_is_missing (calls pg ! v ! 1) then 0
       else me1 ! v ! j)"
    using l1 lm assms(2,3)
    by (simp add: me_retrofit_def row_mask_set_cell parents_missing_row [OF wf(1,3,7)])
  show ?thesis
    using res c0 c1 c2 by (simp add: me_cell_def m(3) al_def)
qed

lemma universe_nonneg: "\<forall>a \<in> set (allele_universe pg cg). 0 \<le> a"
  by (auto simp: allele_universe_def split: sum.splits)

lemma not_share_universe:
  assumes "\<not> share_an_allele p1 p2"
  shows "\<not> shares_allele (allele_universe pg cg) p1 p2"
proof
  assume "shares_allele (allele_universe pg cg) p1 p2"
  then obtain a where a: "a \<in> set (allele_universe pg cg)" "a \<in> set p1" "a \<in> set p2"
    by (auto simp: shares_allele_def list_ex_iff)
  then have "0 \<le> a"
    using universe_nonneg by blast
  with a(2,3) have "share_an_allele p1 p2"
    by (auto simp: share_an_allele_def list_ex_iff)
  with assms show False by contradiction
qed

lemma shares_universe:
  assumes "mendel_shapes pg cg" "v < n_variants cg" "j < n_samples cg"
    and "max_allele_fits pg cg"
  shows "shares_allele (allele_universe pg cg) (calls pg ! v ! 0) (calls pg ! v ! 1)
         \<longleftrightarrow> share_an_allele (calls pg ! v ! 0) (calls pg ! v ! 1)"
proof -
  obtain m1 m2 where m: "max_allele_fits pg cg \<longrightarrow> allele_universe pg cg = [0..max m1 m2]"
      "\<forall>a \<in> set (calls pg ! v ! 0). a \<le> m1"
    using amax_both [OF assms(1-3)] by blast
  have u: "allele_universe pg cg = [0..max m1 m2]"
    using m(1) assms(4) by blast
  have "(\<exists>a \<in> {0..max m1 m2}. a \<in> set (calls pg ! v ! 0) \<and> a \<in> set (calls pg ! v ! 1))
        \<longleftrightarrow> (\<exists>a \<in> set (calls pg ! v ! 0). 0 \<le> a \<and> a \<in> set (calls pg ! v ! 1))"
    using m(2) by fastforce
  then show ?thesis
    by (simp add: u shares_allele_def share_an_allele_def list_ex_iff)
qed

lemma me_uniparental_cell:
  assumes "mendel_shapes pg cg" "v < n_variants cg" "j < n_samples cg"
    "length me0 = n_variants cg" "length (me0 ! v) = n_samples cg"
  shows "me_uniparental (to_allele_counts al pg) (to_allele_counts al cg) me0 ! v ! j =
      (if \<not> shares_allele al (calls pg ! v ! 0) (calls pg ! v ! 1) \<and>
          (allele_counts al (calls cg ! v ! j) = allele_counts al (calls pg ! v ! 0) \<or>
           allele_counts al (calls cg ! v ! j) = allele_counts al (calls pg ! v ! 1))
       then 1 else me0 ! v ! j)"
proof -
  from assms have wf: "wf_garray pg" "wf_garray cg" "n_samples pg = 2"
      "n_variants pg = n_variants cg"
    by (simp_all add: mendel_shapes_def)
  note ms = uniparental_mask_shape [OF wf(1,2,4) assms(2), of al]
  show ?thesis
    using ms assms(2-5)
    by (simp add: me_uniparental_def mask_set_cell
        uniparental_mask_cell [OF wf(1,2,3,4) assms(2,3)])
qed

lemma base_shape:
  assumes "mendel_shapes pg cg" "v < n_variants cg"
  shows "length (me_base (to_allele_counts al cg)
                   (max_progeny_gc k (to_allele_counts al pg))) = n_variants cg"
    and "length (me_base (to_allele_counts al cg)
                   (max_progeny_gc k (to_allele_counts al pg)) ! v) = n_samples cg"
proof -
  from assms have wf: "wf_garray pg" "wf_garray cg" "n_variants pg = n_variants cg"
    by (simp_all add: mendel_shapes_def)
  have crow: "length (calls cg ! v) = n_samples cg"
    using wf(2) assms(2) by (rule wf_row_length)
  show "length (me_base (to_allele_counts al cg)
                   (max_progeny_gc k (to_allele_counts al pg))) = n_variants cg"
    using wf by (simp add: wf_length)
  show "length (me_base (to_allele_counts al cg)
                   (max_progeny_gc k (to_allele_counts al pg)) ! v) = n_samples cg"
    using wf assms(2) crow by (simp add: wf_length me_base_row_length to_allele_counts_row)
qed

lemma clipped_difference_zero:
  "list_all2 (\<le>) xs ys \<Longrightarrow> sum_list (map (\<lambda>d. max d 0) (map2 (-) xs ys)) = (0::int)"
  by (induction xs ys rule: list_all2_induct) simp_all

lemma base_zero_within:
  "within_availability al p1 p2 c \<Longrightarrow> spec_base_count al p1 p2 c = 0"
  unfolding within_availability_def spec_base_count_def by (rule clipped_difference_zero)

lemma allele_counts_missing:
  assumes "list_all (\<lambda>a. a < 0) c" "\<forall>a \<in> set al. 0 \<le> a"
  shows "allele_counts al c = map (\<lambda>_. 0) al"
proof -
  have "count_list c a = 0" if "a \<in> set al" for a
  proof -
    have "a \<notin> set c"
      using assms that by (fastforce simp: list_all_iff)
    then show ?thesis by (simp add: count_list_0_iff)
  qed
  then show ?thesis by (simp add: allele_counts_def)
qed

lemma allele_counts_present:
  assumes "a \<in> set al" "a \<in> set p" "list_all (\<lambda>a. a < 0) c" "0 \<le> a"
  shows "allele_counts al c \<noteq> allele_counts al p"
proof
  assume "allele_counts al c = allele_counts al p"
  then have "count_list c a = count_list p a"
    using assms(1) by (simp add: allele_counts_def)
  moreover have "a \<notin> set c"
    using assms(3,4) by (fastforce simp: list_all_iff)
  ultimately show False
    using assms(2) by (simp add: count_list_0_iff)
qed

lemma missing_within:
  assumes "list_all (\<lambda>a. a < 0) c" "\<forall>a \<in> set al. 0 \<le> a"
  shows "within_availability al p1 p2 c"
  by (simp add: within_availability_def allele_counts_missing [OF assms] spec_availability_def
      list_all2_conv_all_nth)

section \<open>mendel_errors: the claims\<close>

text \<open>Two of the examples of the docstring of \<^verbatim>\<open>mendel_errors\<close>.\<close>

lemma mendel_docstring_uniparental:
  "mendel_errors
     (diploid_array 2 [[[0, 0], [1, 1]], [[0, 0], [2, 2]], [[1, 1], [2, 2]],
                       [[0, 0], [1, 2]], [[1, 1], [0, 2]], [[0, 1], [2, 3]]])
     (diploid_array 2 [[[0, 0], [1, 1]], [[0, 0], [2, 2]], [[1, 1], [2, 2]],
                       [[0, 0], [1, 2]], [[1, 1], [0, 2]], [[0, 1], [2, 3]]])
   = Inr [[1, 1], [1, 1], [1, 1], [1, 1], [1, 1], [1, 1]]"
  by code_simp

lemma mendel_docstring_hemiparental:
  "mendel_errors
     (diploid_array 2 [[[0, 0], [0, 1]], [[0, 0], [0, 2]], [[1, 1], [0, 1]], [[0, 1], [1, 2]],
                       [[0, 1], [0, 2]], [[0, 2], [1, 2]], [[0, 1], [2, 3]], [[0, 1], [2, 3]]])
     (diploid_array 2 [[[1, 1], [- 1, - 1]], [[2, 2], [- 1, - 1]], [[0, 0], [- 1, - 1]],
                       [[0, 0], [2, 2]], [[1, 1], [2, 2]], [[0, 0], [1, 1]], [[0, 0], [1, 1]],
                       [[2, 2], [3, 3]]])
   = Inr [[1, 0], [1, 0], [1, 0], [1, 1], [1, 1], [1, 1], [1, 1], [1, 1]]"
  by code_simp


text \<open>
  Claim C1. For diploid parents of shape \<open>(n, 2, 2)\<close> and progeny of shape
  \<open>(n, n_progeny, 2)\<close>, the array \<open>me\<close> of line 199 holds in each (variant, progeny)
  cell the base count of the spec: the progeny's allele counts minus the availability
  (each parent's count clipped to at most 1, summed over the two parents), negatives
  clipped to 0, summed over the alleles. This holds for any allele universe, so for
  the one \<^verbatim>\<open>mendel_errors\<close> builds.
\<close>

theorem base_count_clipped_excess:
  assumes "mendel_shapes pg cg" "v < n_variants cg" "j < n_samples cg"
  shows "me_base (to_allele_counts al cg)
           (max_progeny_gc (length al) (to_allele_counts al pg)) ! v ! j
         = spec_base_count al (calls pg ! v ! 0) (calls pg ! v ! 1) (calls cg ! v ! j)"
proof -
  from assms have wf: "wf_garray pg" "wf_garray cg" "n_samples pg = 2" "v < n_variants pg"
    by (simp_all add: mendel_shapes_def)
  let ?mpg = "max_progeny_gc (length al) (to_allele_counts al pg)"
  have avail: "?mpg ! v = spec_availability al (calls pg ! v ! 0) (calls pg ! v ! 1)"
    using wf(1,3,4) by (rule max_progeny_gc_row)
  have in_range: "v < length (to_allele_counts al cg)" "v < length ?mpg"
      "j < length (to_allele_counts al cg ! v)"
    using assms(2,3) wf by (simp_all add: wf_length to_allele_counts_row wf_row_length)
  have "me_base (to_allele_counts al cg) ?mpg ! v ! j
        = sum_list (map (\<lambda>d. max d 0) (map2 (-) (to_allele_counts al cg ! v ! j) (?mpg ! v)))"
    using in_range by (rule me_base_cell)
  also have "to_allele_counts al cg ! v ! j = allele_counts al (calls cg ! v ! j)"
    using assms(2,3) wf(2) by (simp add: wf_length to_allele_counts_row wf_row_length)
  finally show ?thesis
    by (simp only: avail spec_base_count_def)
qed

theorem base_count_clipped_excess_witness:
  "mendel_shapes (diploid_array 2 [[[0, 0], [0, 1]]]) (diploid_array 1 [[[2, 2]]]) \<and>
   me_base (to_allele_counts [0, 1, 2] (diploid_array 1 [[[2, 2]]]))
     (max_progeny_gc (length [0, 1, 2 :: int])
        (to_allele_counts [0, 1, 2] (diploid_array 2 [[[0, 0], [0, 1]]]))) ! 0 ! 0
   = spec_base_count [0, 1, 2]
       (calls (diploid_array 2 [[[0, 0], [0, 1]]]) ! 0 ! 0)
       (calls (diploid_array 2 [[[0, 0], [0, 1]]]) ! 0 ! 1)
       (calls (diploid_array 1 [[[2, 2]]]) ! 0 ! 0) \<and>
   spec_base_count [0, 1, 2] [0, 0] [0, 1] [2, 2] = 2"
proof -
  have h: "mendel_shapes (diploid_array 2 [[[0, 0], [0, 1]]]) (diploid_array 1 [[[2, 2]]])"
    by code_simp
  have v: "0 < n_variants (diploid_array 1 [[[2, 2]]])"
    and j: "0 < n_samples (diploid_array 1 [[[2, 2]]])"
    by (simp_all add: diploid_array_def)
  have s: "spec_base_count [0, 1, 2] [0, 0] [0, 1] [2, 2] = 2"
    by code_simp
  show ?thesis
    using base_count_clipped_excess [OF h v j, of "[0, 1, 2]"] h s by blast
qed

text \<open>
  Claim C2. On a variant whose parents share no allele, a progeny call whose
  allele-count vector equals that of one parent or the other has its cell set to 1
  by the assignment of lines 210 to 212, whatever the base count was; when neither
  parent has a missing allele this 1 is the count \<^verbatim>\<open>mendel_errors\<close> returns.
\<close>

theorem uniparental_override_forces_one:
  assumes "mendel_shapes pg cg" "v < n_variants cg" "j < n_samples cg"
    and "\<not> share_an_allele (calls pg ! v ! 0) (calls pg ! v ! 1)"
    and "allele_counts (allele_universe pg cg) (calls cg ! v ! j)
           = allele_counts (allele_universe pg cg) (calls pg ! v ! 0) \<or>
         allele_counts (allele_universe pg cg) (calls cg ! v ! j)
           = allele_counts (allele_universe pg cg) (calls pg ! v ! 1)"
  shows "me_uniparental (to_allele_counts (allele_universe pg cg) pg)
           (to_allele_counts (allele_universe pg cg) cg)
           (me_base (to_allele_counts (allele_universe pg cg) cg)
              (max_progeny_gc (length (allele_universe pg cg))
                 (to_allele_counts (allele_universe pg cg) pg))) ! v ! j = 1
         \<and> (\<not> call_is_missing (calls pg ! v ! 0) \<and> \<not> call_is_missing (calls pg ! v ! 1)
              \<longrightarrow> (\<exists>me. mendel_errors pg cg = Inr me \<and> me ! v ! j = 1))"
proof -
  have ns: "\<not> shares_allele (allele_universe pg cg) (calls pg ! v ! 0) (calls pg ! v ! 1)"
    using assms(4) by (rule not_share_universe)
  have "me_uniparental (to_allele_counts (allele_universe pg cg) pg)
           (to_allele_counts (allele_universe pg cg) cg)
           (me_base (to_allele_counts (allele_universe pg cg) cg)
              (max_progeny_gc (length (allele_universe pg cg))
                 (to_allele_counts (allele_universe pg cg) pg))) ! v ! j = 1"
    using ns assms(5)
    by (simp add: me_uniparental_cell [OF assms(1-3) base_shape [OF assms(1,2)]])
  moreover have "\<exists>me. mendel_errors pg cg = Inr me \<and> me ! v ! j = 1"
    if "\<not> call_is_missing (calls pg ! v ! 0) \<and> \<not> call_is_missing (calls pg ! v ! 1)"
    using mendel_errors_cell [OF assms(1-3)] ns assms(5) that
    by (auto simp: me_cell_def)
  ultimately show ?thesis by blast
qed

theorem uniparental_override_forces_one_witness:
  "mendel_shapes (diploid_array 2 [[[0, 0], [1, 2]]]) (diploid_array 1 [[[1, 2]]]) \<and>
   \<not> share_an_allele [0, 0] [1, 2] \<and>
   allele_counts [0, 1, 2] [1, 2] = allele_counts [0, 1, 2] [1, 2] \<and>
   (\<exists>me. mendel_errors (diploid_array 2 [[[0, 0], [1, 2]]]) (diploid_array 1 [[[1, 2]]]) = Inr me
         \<and> me ! 0 ! 0 = 1)"
proof -
  let ?P = "diploid_array 2 [[[0, 0], [1, 2]]]" and ?C = "diploid_array 1 [[[1, 2]]]"
  have h: "mendel_shapes ?P ?C"
    by code_simp
  have v: "0 < n_variants ?C" and j: "0 < n_samples ?C"
    by (simp_all add: diploid_array_def)
  have ns: "\<not> share_an_allele (calls ?P ! 0 ! 0) (calls ?P ! 0 ! 1)"
    by code_simp
  have eq: "allele_counts (allele_universe ?P ?C) (calls ?C ! 0 ! 0)
              = allele_counts (allele_universe ?P ?C) (calls ?P ! 0 ! 0) \<or>
            allele_counts (allele_universe ?P ?C) (calls ?C ! 0 ! 0)
              = allele_counts (allele_universe ?P ?C) (calls ?P ! 0 ! 1)"
    by code_simp
  have nm: "\<not> call_is_missing (calls ?P ! 0 ! 0) \<and> \<not> call_is_missing (calls ?P ! 0 ! 1)"
    by code_simp
  have ns': "\<not> share_an_allele [0, 0] [1, 2]"
    by code_simp
  show ?thesis
    using uniparental_override_forces_one [OF h v j ns eq] nm h ns' by blast
qed

text \<open>
  Claim C3, as amended. The claim says that a progeny call whose allele multiset lies
  within the parental availability has Mendel-error count 0. The docstring's
  uniparental cases refute it: for parents \<open>[0,0]\<close> and \<open>[1,2]\<close> the call
  \<open>[1,2]\<close> lies within the availability \<open>[1,1,1]\<close> and scores 1. What holds,
  where \<^verbatim>\<open>max_allele + 1\<close> does not wrap: such a cell scores 0, except that it scores
  1 when neither parent has a missing allele, the parents share no allele and the
  call's allele-count vector equals one parent's. Nothing is said here of inputs whose
  largest allele code is the largest value of its element type.
\<close>

theorem within_availability_error_count:
  assumes "mendel_shapes pg cg" "v < n_variants cg" "j < n_samples cg"
    and "max_allele_fits pg cg"
    and "within_availability (allele_universe pg cg)
           (calls pg ! v ! 0) (calls pg ! v ! 1) (calls cg ! v ! j)"
  shows "\<exists>me. mendel_errors pg cg = Inr me \<and>
           me ! v ! j =
             (if \<not> call_is_missing (calls pg ! v ! 0) \<and> \<not> call_is_missing (calls pg ! v ! 1) \<and>
                 \<not> share_an_allele (calls pg ! v ! 0) (calls pg ! v ! 1) \<and>
                 (allele_counts (allele_universe pg cg) (calls cg ! v ! j)
                    = allele_counts (allele_universe pg cg) (calls pg ! v ! 0) \<or>
                  allele_counts (allele_universe pg cg) (calls cg ! v ! j)
                    = allele_counts (allele_universe pg cg) (calls pg ! v ! 1))
              then 1 else 0)"
  using mendel_errors_cell [OF assms(1-3)] base_zero_within [OF assms(5)]
    shares_universe [OF assms(1-4)]
  by (auto simp: me_cell_def)

theorem within_availability_error_count_witness:
  "mendel_shapes (diploid_array 2 [[[0, 1], [1, 2]]]) (diploid_array 1 [[[0, 2]]]) \<and>
   max_allele_fits (diploid_array 2 [[[0, 1], [1, 2]]]) (diploid_array 1 [[[0, 2]]]) \<and>
   within_availability [0, 1, 2] [0, 1] [1, 2] [0, 2] \<and>
   (\<exists>me. mendel_errors (diploid_array 2 [[[0, 1], [1, 2]]]) (diploid_array 1 [[[0, 2]]]) = Inr me
         \<and> me ! 0 ! 0 = 0)"
proof -
  let ?P = "diploid_array 2 [[[0, 1], [1, 2]]]" and ?C = "diploid_array 1 [[[0, 2]]]"
  have h: "mendel_shapes ?P ?C"
    by code_simp
  have v: "0 < n_variants ?C" and j: "0 < n_samples ?C"
    by (simp_all add: diploid_array_def)
  have f: "max_allele_fits ?P ?C"
    by code_simp
  have w: "within_availability (allele_universe ?P ?C)
             (calls ?P ! 0 ! 0) (calls ?P ! 0 ! 1) (calls ?C ! 0 ! 0)"
    by code_simp
  have sh: "share_an_allele (calls ?P ! 0 ! 0) (calls ?P ! 0 ! 1)"
    by code_simp
  have w': "within_availability [0, 1, 2] [0, 1] [1, 2] [0, 2]"
    by code_simp
  show ?thesis
    using within_availability_error_count [OF h v j f w] sh h f w' by auto
qed

theorem within_availability_counterexample:
  "within_availability [0, 1, 2] [0, 0] [1, 2] [1, 2] \<and>
   mendel_errors (diploid_array 2 [[[0, 0], [1, 2]]]) (diploid_array 1 [[[1, 2]]]) = Inr [[1]]"
  by code_simp

text \<open>
  Claim C4. Where either parent has a missing allele at a variant, every progeny cell
  of that variant is 0 in the result: the assignment of line 215 is the last one and
  overrides both the base count and the uniparental 1. The example is a cell that the
  uniparental assignment had set to 1.
\<close>

theorem parent_missing_forces_zero:
  assumes "mendel_shapes pg cg" "v < n_variants cg" "j < n_samples cg"
    and "call_is_missing (calls pg ! v ! 0) \<or> call_is_missing (calls pg ! v ! 1)"
  shows "\<exists>me. mendel_errors pg cg = Inr me \<and> me ! v ! j = 0"
  using mendel_errors_cell [OF assms(1-3)] assms(4)
  by (auto simp: me_cell_def)

theorem parent_missing_forces_zero_witness:
  "mendel_shapes (diploid_array 2 [[[0, - 1], [1, 1]]]) (diploid_array 1 [[[1, 1]]]) \<and>
   call_is_missing [0, - 1] \<and>
   (\<exists>me. mendel_errors (diploid_array 2 [[[0, - 1], [1, 1]]]) (diploid_array 1 [[[1, 1]]]) = Inr me
         \<and> me ! 0 ! 0 = 0)"
proof -
  let ?P = "diploid_array 2 [[[0, - 1], [1, 1]]]" and ?C = "diploid_array 1 [[[1, 1]]]"
  have h: "mendel_shapes ?P ?C"
    by code_simp
  have v: "0 < n_variants ?C" and j: "0 < n_samples ?C"
    by (simp_all add: diploid_array_def)
  have m: "call_is_missing (calls ?P ! 0 ! 0) \<or> call_is_missing (calls ?P ! 0 ! 1)"
    by code_simp
  have m': "call_is_missing [0, - 1]"
    by code_simp
  show ?thesis
    using parent_missing_forces_zero [OF h v j m] h m' by blast
qed

text \<open>
  A progeny call whose alleles are all missing and the docstring's note that 0 is
  returned for missing calls. Where \<^verbatim>\<open>max_allele + 1\<close> does not wrap the note holds
  whatever the parents are: the call's allele-count vector is zero, so nothing exceeds
  the availability, and it cannot equal the count vector of a parent without missing
  alleles. A call with one missing allele can still score: parents \<open>[0,0]\<close>,
  \<open>[0,0]\<close> and progeny \<open>[1,-1]\<close> give 1.
\<close>

lemma missing_progeny_zero_when_fits:
  assumes "mendel_shapes pg cg" "v < n_variants cg" "j < n_samples cg"
    and "list_all (\<lambda>a. a < 0) (calls cg ! v ! j)"
    and "max_allele_fits pg cg"
  shows "(\<exists>me. mendel_errors pg cg = Inr me \<and> me ! v ! j = 0) \<and>
         mendel_errors (diploid_array 2 [[[0, 0], [0, 0]]]) (diploid_array 1 [[[1, - 1]]])
           = Inr [[1]]"
proof -
  let ?al = "allele_universe pg cg"
  let ?p1 = "calls pg ! v ! 0" and ?p2 = "calls pg ! v ! 1" and ?c = "calls cg ! v ! j"
  obtain m1 m2 where m0: "max_allele_fits pg cg \<longrightarrow> ?al = [0..max m1 m2]"
      and mb: "\<forall>a \<in> set ?p1. a \<le> m1" "\<forall>a \<in> set ?p2. a \<le> m1"
    using amax_both [OF assms(1-3)] by blast
  have m: "?al = [0..max m1 m2]"
      "\<forall>a \<in> set ?p1. a \<le> m1" "\<forall>a \<in> set ?p2. a \<le> m1"
    using m0 mb assms(5) by blast+
  have nonneg: "\<forall>a \<in> set ?al. 0 \<le> a"
    by (simp add: m(1))
  note e = shapes_elems [OF assms(1-3)]
  have "me_cell ?al ?p1 ?p2 ?c = 0"
  proof (cases "call_is_missing ?p1 \<or> call_is_missing ?p2")
    case True
    then show ?thesis by (auto simp: me_cell_def)
  next
    case False
    have in1: "?p1 ! 0 \<in> set ?p1" and in2: "?p2 ! 0 \<in> set ?p2"
      using e(4,5) by simp_all
    have "\<forall>a \<in> set ?p1. \<not> a < 0" and "\<forall>a \<in> set ?p2. \<not> a < 0"
      using False by (simp_all add: call_is_missing_def list_ex_iff)
    then have ge1: "0 \<le> ?p1 ! 0" and ge2: "0 \<le> ?p2 ! 0"
      using in1 in2 by (simp_all add: not_less)
    have u1: "?p1 ! 0 \<in> set ?al" and u2: "?p2 ! 0 \<in> set ?al"
      using m(2,3) in1 in2 ge1 ge2 by (auto simp: m(1))
    have "allele_counts ?al ?c \<noteq> allele_counts ?al ?p1"
      by (rule allele_counts_present [OF u1 in1 assms(4) ge1])
    moreover have "allele_counts ?al ?c \<noteq> allele_counts ?al ?p2"
      by (rule allele_counts_present [OF u2 in2 assms(4) ge2])
    moreover have "spec_base_count ?al ?p1 ?p2 ?c = 0"
      by (rule base_zero_within [OF missing_within [OF assms(4) nonneg]])
    ultimately show ?thesis by (simp add: me_cell_def)
  qed
  then have "\<exists>me. mendel_errors pg cg = Inr me \<and> me ! v ! j = 0"
    using mendel_errors_cell [OF assms(1-3)] by auto
  moreover have "mendel_errors (diploid_array 2 [[[0, 0], [0, 0]]]) (diploid_array 1 [[[1, - 1]]])
           = Inr [[1]]"
    by code_simp
  ultimately show ?thesis by blast
qed

lemma missing_progeny_zero_when_fits_example:
  "\<exists>me. mendel_errors (diploid_array 2 [[[0, 0], [1, 1]]]) (diploid_array 1 [[[- 1, - 1]]]) = Inr me
        \<and> me ! 0 ! 0 = 0"
proof -
  let ?P = "diploid_array 2 [[[0, 0], [1, 1]]]" and ?C = "diploid_array 1 [[[- 1, - 1]]]"
  have h: "mendel_shapes ?P ?C"
    by code_simp
  have v: "0 < n_variants ?C" and j: "0 < n_samples ?C"
    by (simp_all add: diploid_array_def)
  have m: "list_all (\<lambda>a. a < 0) (calls ?C ! 0 ! 0)"
    by code_simp
  have f: "max_allele_fits ?P ?C"
    by code_simp
  show ?thesis
    using missing_progeny_zero_when_fits [OF h v j m f] by blast
qed

text \<open>
  Claim C9. The claim says that a progeny call whose two alleles are missing scores 0
  whatever the parents are, as the docstring does (\<^verbatim>\<open>a value of 0 is returned for
  missing calls\<close>). The function does not keep to it where the largest allele code is
  the largest value of its element type: for \<^verbatim>\<open>int8\<close> parents \<open>[0,127]\<close> and
  \<open>[0,127]\<close>, \<^verbatim>\<open>max_allele + 1\<close> wraps to -128, the allele universe is empty, every
  count vector is empty and equal to every other, and the fully missing call
  \<open>[-1,-1]\<close> scores 1.
\<close>

theorem missing_progeny_wrapped_universe:
  "mendel_shapes (genotype_array Int8 2 2 [[[0, 127], [0, 127]]])
     (genotype_array Int8 1 2 [[[- 1, - 1]]]) \<and>
   list_all (\<lambda>a. a < 0) (calls (genotype_array Int8 1 2 [[[- 1, - 1]]]) ! 0 ! 0) \<and>
   allele_universe (genotype_array Int8 2 2 [[[0, 127], [0, 127]]])
     (genotype_array Int8 1 2 [[[- 1, - 1]]]) = [] \<and>
   mendel_errors (genotype_array Int8 2 2 [[[0, 127], [0, 127]]])
     (genotype_array Int8 1 2 [[[- 1, - 1]]]) = Inr [[1]]"
  by code_simp

theorem missing_progeny_wrapped_universe_witness:
  "\<exists>me. mendel_errors (genotype_array Int8 2 2 [[[0, 127], [0, 127]]])
          (genotype_array Int8 1 2 [[[- 1, - 1]]]) = Inr me \<and>
        me ! 0 ! 0 = 1"
proof -
  have "mendel_errors (genotype_array Int8 2 2 [[[0, 127], [0, 127]]])
          (genotype_array Int8 1 2 [[[- 1, - 1]]]) = Inr [[1]]"
    using missing_progeny_wrapped_universe by blast
  then show ?thesis
    by simp
qed

section \<open>paint_transmission cell by cell\<close>

lemma shaped_length: "shaped n p a \<Longrightarrow> length a = n"
  by (simp add: shaped_def)

lemma shaped_row: "shaped n p a \<Longrightarrow> v < n \<Longrightarrow> length (a ! v) = p"
  by (simp add: shaped_def list_all_length)

lemma shaped_bc: "shaped n p a \<Longrightarrow> length col = n \<Longrightarrow> shaped n p (bc f a col)"
  by (simp add: shaped_def bc_def list_all_length)

lemma shaped_ew: "shaped n p a \<Longrightarrow> shaped n p b \<Longrightarrow> shaped n p (ew f a b)"
  by (simp add: shaped_def ew_def list_all_length)

lemma shaped_mask_set: "shaped n p m \<Longrightarrow> shaped n p a \<Longrightarrow> shaped n p (mask_set m x a)"
  by (simp add: shaped_def mask_set_def list_all_length)

lemma shaped_row_mask_set: "length m = n \<Longrightarrow> shaped n p a \<Longrightarrow> shaped n p (row_mask_set m x a)"
  by (simp add: shaped_def row_mask_set_def list_all_length)

lemma bc_cell:
  "shaped n p a \<Longrightarrow> length col = n \<Longrightarrow> v < n \<Longrightarrow> j < p \<Longrightarrow>
   bc f a col ! v ! j = f (a ! v ! j) (col ! v)"
  by (simp add: shaped_def bc_def list_all_length)

lemma ew_cell:
  "shaped n p a \<Longrightarrow> shaped n p b \<Longrightarrow> v < n \<Longrightarrow> j < p \<Longrightarrow>
   ew f a b ! v ! j = f (a ! v ! j) (b ! v ! j)"
  by (simp add: shaped_def ew_def list_all_length)

lemma mask_set_shaped_cell:
  "shaped n p m \<Longrightarrow> shaped n p a \<Longrightarrow> v < n \<Longrightarrow> j < p \<Longrightarrow>
   mask_set m x a ! v ! j = (if m ! v ! j then x else a ! v ! j)"
  by (simp add: shaped_def mask_set_def list_all_length)

lemma row_mask_set_shaped_cell:
  "length m = n \<Longrightarrow> shaped n p a \<Longrightarrow> v < n \<Longrightarrow> j < p \<Longrightarrow>
   row_mask_set m x a ! v ! j = (if m ! v then x else a ! v ! j)"
  by (simp add: shaped_def row_mask_set_def list_all_length)

lemma shaped_haps: "wf_harray h \<Longrightarrow> shaped (h_variants h) (n_haplotypes h) (haps h)"
  by (simp add: wf_harray_def shaped_def)

lemma shaped_map_map: "shaped n p a \<Longrightarrow> shaped n p (map (map f) a)"
  by (simp add: shaped_def list_all_length)

lemma map_map_cell: "shaped n p a \<Longrightarrow> v < n \<Longrightarrow> j < p \<Longrightarrow> map (map f) a ! v ! j = f (a ! v ! j)"
  by (simp add: shaped_def list_all_length)

lemma paint_mask_shapes:
  assumes "paint_shapes ph ch"
  shows "shaped (h_variants ch) (n_haplotypes ch) (haps ch)"
    and "length (haps ph) = h_variants ch"
    and "length (parent1 ph) = h_variants ch"
    and "length (parent2 ph) = h_variants ch"
    and "length (parent_is_missing ph) = h_variants ch"
    and "length (parent_is_het ph) = h_variants ch"
    and "length (parent_is_hom_ref ph) = h_variants ch"
    and "length (parent_is_hom_alt ph) = h_variants ch"
    and "shaped (h_variants ch) (n_haplotypes ch) (progeny_is_missing ch)"
    and "shaped (h_variants ch) (n_haplotypes ch) (is_callable ph ch)"
    and "shaped (h_variants ch) (n_haplotypes ch) (is_callable_seg ph ch)"
proof -
  from assms have wf: "wf_harray ph" "wf_harray ch" "h_variants ph = h_variants ch"
    by (simp_all add: paint_shapes_def)
  show c: "shaped (h_variants ch) (n_haplotypes ch) (haps ch)"
    using wf(2) by (rule shaped_haps)
  show l: "length (haps ph) = h_variants ch"
    using wf(1,3) by (simp add: wf_harray_def)
  show "length (parent1 ph) = h_variants ch" "length (parent2 ph) = h_variants ch"
    using l by (simp_all add: parent1_def parent2_def)
  show pm: "length (parent_is_missing ph) = h_variants ch"
    using l by (simp add: parent_is_missing_def)
  show het: "length (parent_is_het ph) = h_variants ch"
    using l by (simp add: parent_is_het_def)
  show "length (parent_is_hom_ref ph) = h_variants ch"
    "length (parent_is_hom_alt ph) = h_variants ch"
    using l by (simp_all add: parent_is_hom_ref_def parent_is_hom_alt_def)
  show m: "shaped (h_variants ch) (n_haplotypes ch) (progeny_is_missing ch)"
    unfolding progeny_is_missing_def using c by (rule shaped_map_map)
  show ca: "shaped (h_variants ch) (n_haplotypes ch) (is_callable ph ch)"
    unfolding is_callable_def using m pm by (rule shaped_bc)
  show "shaped (h_variants ch) (n_haplotypes ch) (is_callable_seg ph ch)"
    unfolding is_callable_seg_def using ca het by (rule shaped_bc)
qed

lemma state_mask_shapes:
  assumes "paint_shapes ph ch"
  shows "shaped (h_variants ch) (n_haplotypes ch) (inherit_parent1 ph ch)"
    and "shaped (h_variants ch) (n_haplotypes ch) (inherit_parent2 ph ch)"
    and "shaped (h_variants ch) (n_haplotypes ch) (nonseg_ref ph ch)"
    and "shaped (h_variants ch) (n_haplotypes ch) (nonseg_alt ph ch)"
    and "shaped (h_variants ch) (n_haplotypes ch) (nonparental ph ch)"
  using paint_mask_shapes [OF assms]
  by (simp_all add: inherit_parent1_def inherit_parent2_def nonseg_ref_def nonseg_alt_def
      nonparental_def shaped_bc shaped_ew)

lemma callable_cell:
  assumes "paint_shapes ph ch" "v < h_variants ch" "j < n_haplotypes ch"
  shows "is_callable ph ch ! v ! j
         \<longleftrightarrow> \<not> haps ch ! v ! j < 0 \<and> \<not> list_ex (\<lambda>y. y < 0) (haps ph ! v)"
  using paint_mask_shapes [OF assms(1)] assms(2,3)
  by (simp add: is_callable_def bc_cell progeny_is_missing_def map_map_cell parent_is_missing_def)

lemma state_mask_cells:
  assumes "paint_shapes ph ch" "v < h_variants ch" "j < n_haplotypes ch"
  shows "inherit_parent1 ph ch ! v ! j \<longleftrightarrow>
           is_callable ph ch ! v ! j \<and> call_is_het (haps ph ! v) \<and>
           haps ch ! v ! j = haps ph ! v ! 0"
    and "inherit_parent2 ph ch ! v ! j \<longleftrightarrow>
           is_callable ph ch ! v ! j \<and> call_is_het (haps ph ! v) \<and>
           haps ch ! v ! j = haps ph ! v ! 1"
    and "nonseg_ref ph ch ! v ! j \<longleftrightarrow>
           is_callable ph ch ! v ! j \<and> call_is_hom_ref (haps ph ! v) \<and>
           haps ch ! v ! j = haps ph ! v ! 0"
    and "nonseg_alt ph ch ! v ! j \<longleftrightarrow>
           is_callable ph ch ! v ! j \<and> call_is_hom_alt (haps ph ! v) \<and>
           haps ch ! v ! j = haps ph ! v ! 0"
    and "nonparental ph ch ! v ! j \<longleftrightarrow>
           is_callable ph ch ! v ! j \<and> haps ch ! v ! j \<noteq> haps ph ! v ! 0 \<and>
           haps ch ! v ! j \<noteq> haps ph ! v ! 1"
proof -
  note s = paint_mask_shapes [OF assms(1)]
  have sb: "\<And>f col. length col = h_variants ch \<Longrightarrow>
              shaped (h_variants ch) (n_haplotypes ch) (bc f (haps ch) col)"
    using s(1) by (rule shaped_bc)
  have sc: "\<And>col. length col = h_variants ch \<Longrightarrow>
              shaped (h_variants ch) (n_haplotypes ch) (bc (\<and>) (is_callable ph ch) col)"
    using s(10) by (rule shaped_bc)
  have seg: "is_callable_seg ph ch ! v ! j \<longleftrightarrow>
               is_callable ph ch ! v ! j \<and> call_is_het (haps ph ! v)"
    using s assms(2,3) by (simp add: is_callable_seg_def bc_cell parent_is_het_def)
  show "inherit_parent1 ph ch ! v ! j \<longleftrightarrow>
           is_callable ph ch ! v ! j \<and> call_is_het (haps ph ! v) \<and>
           haps ch ! v ! j = haps ph ! v ! 0"
    using s assms(2,3) seg
    by (simp add: inherit_parent1_def ew_cell [OF s(11) sb] bc_cell parent1_def)
  show "inherit_parent2 ph ch ! v ! j \<longleftrightarrow>
           is_callable ph ch ! v ! j \<and> call_is_het (haps ph ! v) \<and>
           haps ch ! v ! j = haps ph ! v ! 1"
    using s assms(2,3) seg
    by (simp add: inherit_parent2_def ew_cell [OF s(11) sb] bc_cell parent2_def)
  show "nonseg_ref ph ch ! v ! j \<longleftrightarrow>
           is_callable ph ch ! v ! j \<and> call_is_hom_ref (haps ph ! v) \<and>
           haps ch ! v ! j = haps ph ! v ! 0"
    using s assms(2,3)
    by (simp add: nonseg_ref_def ew_cell [OF sc sb] bc_cell parent1_def parent_is_hom_ref_def)
  show "nonseg_alt ph ch ! v ! j \<longleftrightarrow>
           is_callable ph ch ! v ! j \<and> call_is_hom_alt (haps ph ! v) \<and>
           haps ch ! v ! j = haps ph ! v ! 0"
    using s assms(2,3)
    by (simp add: nonseg_alt_def ew_cell [OF sc sb] bc_cell parent1_def parent_is_hom_alt_def)
  have p1: "parent1 ph ! v = haps ph ! v ! 0" and p2: "parent2 ph ! v = haps ph ! v ! 1"
    using s(2) assms(2) by (simp_all add: parent1_def parent2_def)
  have se: "shaped (h_variants ch) (n_haplotypes ch)
              (ew (\<and>) (is_callable ph ch) (bc (\<noteq>) (haps ch) (parent1 ph)))"
    using s(10) sb [OF s(3)] by (rule shaped_ew)
  show "nonparental ph ch ! v ! j \<longleftrightarrow>
           is_callable ph ch ! v ! j \<and> haps ch ! v ! j \<noteq> haps ph ! v ! 0 \<and>
           haps ch ! v ! j \<noteq> haps ph ! v ! 1"
    unfolding nonparental_def
    by (simp only: ew_cell [OF se sb [OF s(4)] assms(2,3)]
        ew_cell [OF s(10) sb [OF s(3)] assms(2,3)]
        bc_cell [OF s(1) s(3) assms(2,3)] bc_cell [OF s(1) s(4) assms(2,3)] p1 p2 conj_assoc)
qed

lemma paint_transmission_cell:
  assumes "paint_shapes ph ch" "v < h_variants ch" "j < n_haplotypes ch"
  shows "\<exists>P. paint_transmission ph ch = Inr P \<and>
           P ! v ! j = paint_cell (haps ph ! v) (haps ch ! v ! j)"
proof -
  note s = paint_mask_shapes [OF assms(1)]
  note ms = state_mask_shapes [OF assms(1)]
  note mc = state_mask_cells [OF assms]
  define q0 :: "8 word list list" where "q0 = map (map (\<lambda>_. 0)) (haps ch)"
  define q1 where "q1 = mask_set (inherit_parent1 ph ch) INHERIT_PARENT1 q0"
  define q2 where "q2 = mask_set (inherit_parent2 ph ch) INHERIT_PARENT2 q1"
  define q3 where "q3 = mask_set (nonseg_ref ph ch) INHERIT_NONSEG_REF q2"
  define q4 where "q4 = mask_set (nonseg_alt ph ch) INHERIT_NONSEG_ALT q3"
  define q5 where "q5 = mask_set (nonparental ph ch) INHERIT_NONPARENTAL q4"
  define q6 where "q6 = row_mask_set (parent_is_missing ph) INHERIT_PARENT_MISSING q5"
  define q7 where "q7 = mask_set (progeny_is_missing ch) INHERIT_MISSING q6"
  have res: "paint_transmission ph ch = Inr q7"
    using assms(1)
    by (simp add: paint_transmission_def paint_shapes_def Let_def q0_def q1_def q2_def q3_def
        q4_def q5_def q6_def q7_def)
  have s0: "shaped (h_variants ch) (n_haplotypes ch) q0"
    unfolding q0_def using s(1) by (rule shaped_map_map)
  have s1: "shaped (h_variants ch) (n_haplotypes ch) q1"
    unfolding q1_def using ms(1) s0 by (rule shaped_mask_set)
  have s2: "shaped (h_variants ch) (n_haplotypes ch) q2"
    unfolding q2_def using ms(2) s1 by (rule shaped_mask_set)
  have s3: "shaped (h_variants ch) (n_haplotypes ch) q3"
    unfolding q3_def using ms(3) s2 by (rule shaped_mask_set)
  have s4: "shaped (h_variants ch) (n_haplotypes ch) q4"
    unfolding q4_def using ms(4) s3 by (rule shaped_mask_set)
  have s5: "shaped (h_variants ch) (n_haplotypes ch) q5"
    unfolding q5_def using ms(5) s4 by (rule shaped_mask_set)
  have s6: "shaped (h_variants ch) (n_haplotypes ch) q6"
    unfolding q6_def using s(5) s5 by (rule shaped_row_mask_set)
  have c0: "q0 ! v ! j = INHERIT_UNDETERMINED"
    unfolding q0_def INHERIT_UNDETERMINED_def
    using s(1) assms(2,3) by (rule map_map_cell)
  have c1: "q1 ! v ! j = (if inherit_parent1 ph ch ! v ! j then INHERIT_PARENT1 else q0 ! v ! j)"
    unfolding q1_def using ms(1) s0 assms(2,3) by (rule mask_set_shaped_cell)
  have c2: "q2 ! v ! j = (if inherit_parent2 ph ch ! v ! j then INHERIT_PARENT2 else q1 ! v ! j)"
    unfolding q2_def using ms(2) s1 assms(2,3) by (rule mask_set_shaped_cell)
  have c3: "q3 ! v ! j = (if nonseg_ref ph ch ! v ! j then INHERIT_NONSEG_REF else q2 ! v ! j)"
    unfolding q3_def using ms(3) s2 assms(2,3) by (rule mask_set_shaped_cell)
  have c4: "q4 ! v ! j = (if nonseg_alt ph ch ! v ! j then INHERIT_NONSEG_ALT else q3 ! v ! j)"
    unfolding q4_def using ms(4) s3 assms(2,3) by (rule mask_set_shaped_cell)
  have c5: "q5 ! v ! j = (if nonparental ph ch ! v ! j then INHERIT_NONPARENTAL else q4 ! v ! j)"
    unfolding q5_def using ms(5) s4 assms(2,3) by (rule mask_set_shaped_cell)
  have c6: "q6 ! v ! j = (if parent_is_missing ph ! v then INHERIT_PARENT_MISSING else q5 ! v ! j)"
    unfolding q6_def using s(5) s5 assms(2,3) by (rule row_mask_set_shaped_cell)
  have c7: "q7 ! v ! j = (if progeny_is_missing ch ! v ! j then INHERIT_MISSING else q6 ! v ! j)"
    unfolding q7_def using s(9) s6 assms(2,3) by (rule mask_set_shaped_cell)
  have pm: "parent_is_missing ph ! v \<longleftrightarrow> list_ex (\<lambda>y. y < 0) (haps ph ! v)"
    using s(2) assms(2) by (simp add: parent_is_missing_def)
  have cm: "progeny_is_missing ch ! v ! j \<longleftrightarrow> haps ch ! v ! j < 0"
    unfolding progeny_is_missing_def using s(1) assms(2,3) by (rule map_map_cell)
  have "q7 ! v ! j = paint_cell (haps ph ! v) (haps ch ! v ! j)"
    unfolding c7 c6 c5 c4 c3 c2 c1 c0 mc pm cm callable_cell [OF assms] paint_cell_def Let_def
    by simp
  with res show ?thesis by simp
qed

lemma het_not_hom: "call_is_het c \<Longrightarrow> \<not> call_is_hom_ref c \<and> \<not> call_is_hom_alt c"
  by (cases c) (auto simp: call_is_het_def call_is_hom_ref_def call_is_hom_alt_def
      list_ex_iff list_all_iff)

section \<open>paint_transmission: the claims\<close>

text \<open>The example of the docstring of \<^verbatim>\<open>paint_transmission\<close>.\<close>

lemma paint_docstring_example:
  "paint_transmission
     (haplotype_array 2 [[0, 0], [0, 1], [1, 0], [1, 1], [0, 2], [0, - 1], [- 1, 1], [- 1, - 1]])
     (haplotype_array 4 [[0, 1, 2, - 1], [0, 1, 2, - 1], [0, 1, 2, - 1], [0, 1, 2, - 1],
                         [0, 1, 2, - 1], [0, 1, 2, - 1], [0, 1, 2, - 1], [0, 1, 2, - 1]])
   = Inr [[3, 5, 5, 7], [1, 2, 5, 7], [2, 1, 5, 7], [5, 4, 5, 7], [1, 5, 2, 7],
          [6, 6, 6, 7], [6, 6, 6, 7], [6, 6, 6, 7]]"
  by code_simp

text \<open>
  Claim C5. For two parental haplotypes and progeny haplotypes over the same variants,
  every cell of the painting is one of the codes 0 to 7, and a cell whose progeny
  allele is missing is 7 whatever the parent carries: the assignment of
  \<^verbatim>\<open>INHERIT_MISSING\<close> is the last one.
\<close>

theorem painting_codes_and_missing:
  assumes "paint_shapes ph ch" "v < h_variants ch" "j < n_haplotypes ch"
  shows "\<exists>P. paint_transmission ph ch = Inr P \<and>
           P ! v ! j \<in> {0, 1, 2, 3, 4, 5, 6, 7} \<and>
           (haps ch ! v ! j < 0 \<longrightarrow> P ! v ! j = 7)"
proof -
  obtain P where P: "paint_transmission ph ch = Inr P"
      "P ! v ! j = paint_cell (haps ph ! v) (haps ch ! v ! j)"
    using paint_transmission_cell [OF assms] by blast
  have "paint_cell pr x \<in> {0, 1, 2, 3, 4, 5, 6, 7}" for pr x
    by (simp add: paint_cell_def Let_def INHERIT_UNDETERMINED_def INHERIT_PARENT1_def
        INHERIT_PARENT2_def INHERIT_NONSEG_REF_def INHERIT_NONSEG_ALT_def
        INHERIT_NONPARENTAL_def INHERIT_PARENT_MISSING_def INHERIT_MISSING_def)
  moreover have "paint_cell pr x = 7" if "x < 0" for pr x
    using that by (simp add: paint_cell_def Let_def INHERIT_MISSING_def)
  ultimately show ?thesis
    using P by auto
qed

theorem painting_codes_and_missing_witness:
  "paint_shapes (haplotype_array 2 [[0, 0]]) (haplotype_array 3 [[0, 1, - 1]]) \<and>
   haps (haplotype_array 3 [[0, 1, - 1]]) ! 0 ! 2 < 0 \<and>
   (\<exists>P. paint_transmission (haplotype_array 2 [[0, 0]]) (haplotype_array 3 [[0, 1, - 1]]) = Inr P \<and>
        P ! 0 ! 2 \<in> {0, 1, 2, 3, 4, 5, 6, 7} \<and>
        (haps (haplotype_array 3 [[0, 1, - 1]]) ! 0 ! 2 < 0 \<longrightarrow> P ! 0 ! 2 = 7)) \<and>
   paint_transmission (haplotype_array 2 [[0, 0]]) (haplotype_array 3 [[0, 1, - 1]])
     = Inr [[3, 5, 7]]"
proof -
  let ?P = "haplotype_array 2 [[0, 0]]" and ?C = "haplotype_array 3 [[0, 1, - 1]]"
  have h: "paint_shapes ?P ?C"
    by code_simp
  have v: "0 < h_variants ?C" and j: "2 < n_haplotypes ?C"
    by (simp_all add: haplotype_array_def)
  have m: "haps ?C ! 0 ! 2 < 0"
    by code_simp
  have r: "paint_transmission ?P ?C = Inr [[3, 5, 7]]"
    by code_simp
  show ?thesis
    using painting_codes_and_missing [OF h v j] h m r by blast
qed

text \<open>
  Claim C6. In no cell does the mask of state 1 or of state 2 hold together with the
  mask of state 3 or of state 4: the first two need a heterozygous parent diplotype,
  the last two a homozygous one.
\<close>

theorem segregating_excludes_nonsegregating:
  assumes "paint_shapes ph ch" "v < h_variants ch" "j < n_haplotypes ch"
  shows "\<not> ((inherit_parent1 ph ch ! v ! j \<or> inherit_parent2 ph ch ! v ! j) \<and>
            (nonseg_ref ph ch ! v ! j \<or> nonseg_alt ph ch ! v ! j))"
  using state_mask_cells [OF assms] het_not_hom [of "haps ph ! v"]
  by blast

theorem segregating_excludes_nonsegregating_witness:
  "paint_shapes (haplotype_array 2 [[0, 1]]) (haplotype_array 2 [[0, 1]]) \<and>
   inherit_parent1 (haplotype_array 2 [[0, 1]]) (haplotype_array 2 [[0, 1]]) ! 0 ! 0 \<and>
   \<not> ((inherit_parent1 (haplotype_array 2 [[0, 1]]) (haplotype_array 2 [[0, 1]]) ! 0 ! 0 \<or>
        inherit_parent2 (haplotype_array 2 [[0, 1]]) (haplotype_array 2 [[0, 1]]) ! 0 ! 0) \<and>
       (nonseg_ref (haplotype_array 2 [[0, 1]]) (haplotype_array 2 [[0, 1]]) ! 0 ! 0 \<or>
        nonseg_alt (haplotype_array 2 [[0, 1]]) (haplotype_array 2 [[0, 1]]) ! 0 ! 0))"
proof -
  let ?P = "haplotype_array 2 [[0, 1]]"
  have h: "paint_shapes ?P ?P"
    by code_simp
  have v: "0 < h_variants ?P" and j: "0 < n_haplotypes ?P"
    by (simp_all add: haplotype_array_def)
  have i: "inherit_parent1 ?P ?P ! 0 ! 0"
    by code_simp
  show ?thesis
    using segregating_excludes_nonsegregating [OF h v j] h i by blast
qed

section \<open>phase_progeny_by_transmission: the claims\<close>

text \<open>
  The example of the docstring of \<^verbatim>\<open>phase_progeny_by_transmission\<close>: the modelled
  kernel reorders the same calls and marks the same cells.
\<close>

lemma phase_docstring_example:
  "phase_progeny_by_transmission_int8
     [[[0, 0], [0, 0], [0, 0]], [[1, 1], [1, 1], [1, 1]], [[0, 0], [1, 1], [0, 1]],
      [[1, 1], [0, 0], [0, 1]], [[0, 0], [0, 1], [0, 0]], [[0, 0], [0, 1], [0, 1]],
      [[0, 1], [0, 0], [0, 1]], [[0, 1], [0, 1], [0, 1]], [[0, 1], [1, 2], [0, 1]],
      [[1, 2], [0, 1], [1, 2]], [[0, 1], [2, 3], [0, 2]], [[2, 3], [0, 1], [1, 3]],
      [[0, 0], [0, 0], [- 1, - 1]], [[0, 0], [0, 0], [1, 1]]]
   = ([[[0, 0], [0, 0], [0, 0]], [[1, 1], [1, 1], [1, 1]], [[0, 0], [1, 1], [0, 1]],
       [[1, 1], [0, 0], [1, 0]], [[0, 0], [0, 1], [0, 0]], [[0, 0], [0, 1], [0, 1]],
       [[0, 1], [0, 0], [1, 0]], [[0, 1], [0, 1], [0, 1]], [[0, 1], [1, 2], [0, 1]],
       [[1, 2], [0, 1], [2, 1]], [[0, 1], [2, 3], [0, 2]], [[2, 3], [0, 1], [3, 1]],
       [[0, 0], [0, 0], [- 1, - 1]], [[0, 0], [0, 0], [1, 1]]],
      [[False, False, True], [False, False, True], [False, False, True],
       [False, False, True], [False, False, True], [False, False, True],
       [False, False, True], [False, False, False], [False, False, True],
       [False, False, True], [False, False, True], [False, False, True],
       [False, False, False], [False, False, False]])"
  by code_simp

lemma is_phased_shape:
  "length (snd (phase_progeny_by_transmission_int8 d)) = length d"
  by (simp add: phase_progeny_by_transmission_int8_def)

lemma is_phased_row:
  assumes "v < length d"
  shows "snd (phase_progeny_by_transmission_int8 d) ! v
         = [False, False] @ map (\<lambda>c. snd (phase_call (d ! v ! 0) (d ! v ! 1) c)) (drop 2 (d ! v))"
  using assms by (simp add: phase_progeny_by_transmission_int8_def phase_variant_def Let_def)

lemma phase_result:
  assumes "ploidy (h ! g) = 2" "3 \<le> n_samples (h ! g)"
  shows "phase_progeny_by_transmission h g copy =
           (let (h1, g1) = (if copy then array_copy h g else (h, g));
                (h2, g2) = astype_i1 h1 g1;
                r = phase_progeny_by_transmission_int8 (calls (h2 ! g2))
            in (h2[g2 := (h2 ! g2)\<lparr>calls := fst r\<rparr>], Inr (g2, snd r)))"
  using assms
  by (simp add: phase_progeny_by_transmission_def Let_def split: prod.splits)

lemma phase_cases:
  assumes "g < length h" "ploidy (h ! g) = 2" "3 \<le> n_samples (h ! g)"
  shows "\<exists>h' g' ip d. phase_progeny_by_transmission h g copy = (h', Inr (g', ip)) \<and>
           g' < length h' \<and> dtype_of (h' ! g') = Int8 \<and>
           (g' = g \<longleftrightarrow> \<not> copy \<and> dtype_of (h ! g) = Int8) \<and>
           (g' \<noteq> g \<longrightarrow> h' ! g = h ! g) \<and>
           (d = calls (h ! g) \<or> d = map (map (map to_int8)) (calls (h ! g))) \<and>
           ip = snd (phase_progeny_by_transmission_int8 d)"
proof (cases copy)
  case True
  show ?thesis
  proof (cases "dtype_of (h ! g) = Int8")
    case True
    with \<open>copy\<close> assms show ?thesis
      by (auto simp: phase_result array_copy_def astype_i1_def Let_def nth_append)
  next
    case False
    with \<open>copy\<close> assms show ?thesis
      by (auto simp: phase_result array_copy_def astype_i1_def Let_def nth_append)
  qed
next
  case nc: False
  show ?thesis
  proof (cases "dtype_of (h ! g) = Int8")
    case True
    with nc assms show ?thesis
      by (auto simp: phase_result astype_i1_def Let_def)
  next
    case False
    with nc assms show ?thesis
      by (auto simp: phase_result astype_i1_def Let_def nth_append)
  qed
qed

text \<open>
  Claim C7. Each function answers a violated precondition with its validation error
  and nothing else: \<^verbatim>\<open>mendel_errors\<close> on a ploidy other than 2,
  \<^verbatim>\<open>paint_transmission\<close> on a number of parental haplotypes other than 2,
  \<^verbatim>\<open>phase_progeny_by_transmission\<close> on a ploidy other than 2 and, for diploid
  input, on fewer than three samples. The error is the whole result, whatever the
  arrays hold, and the phaser returns the heap it was given: no array was allocated
  and none was written.
\<close>

theorem precondition_errors_without_effects:
  shows "(ploidy pg \<noteq> 2 \<or> ploidy cg \<noteq> 2 \<longrightarrow> mendel_errors pg cg = Inl DiploidOnly) \<and>
         (n_haplotypes ph \<noteq> 2 \<longrightarrow> paint_transmission ph ch = Inl TwoHaplotypesRequired) \<and>
         (ploidy (h ! g) \<noteq> 2 \<longrightarrow>
            phase_progeny_by_transmission h g copy = (h, Inl DiploidOnly)) \<and>
         (ploidy (h ! g) = 2 \<and> n_samples (h ! g) < 3 \<longrightarrow>
            phase_progeny_by_transmission h g copy
              = (h, Inl (ThreeSamplesRequired (n_samples (h ! g)))))"
  by (simp add: mendel_errors_def paint_transmission_def phase_progeny_by_transmission_def)

theorem precondition_errors_without_effects_witness:
  "ploidy (genotype_array Int8 2 3 [[[0, 0, 0], [0, 0, 0]]]) \<noteq> 2 \<and>
   mendel_errors (genotype_array Int8 2 3 [[[0, 0, 0], [0, 0, 0]]])
     (genotype_array Int8 1 2 [[[0, 0]]]) = Inl DiploidOnly \<and>
   n_haplotypes (haplotype_array 3 [[0, 0, 0]]) \<noteq> 2 \<and>
   paint_transmission (haplotype_array 3 [[0, 0, 0]]) (haplotype_array 1 [[0]])
     = Inl TwoHaplotypesRequired \<and>
   phase_progeny_by_transmission [genotype_array Int8 3 1 [[[0], [0], [0]]]] 0 False
     = ([genotype_array Int8 3 1 [[[0], [0], [0]]]], Inl DiploidOnly) \<and>
   phase_progeny_by_transmission [genotype_array Int8 2 2 [[[0, 1], [0, 1]]]] 0 False
     = ([genotype_array Int8 2 2 [[[0, 1], [0, 1]]]], Inl (ThreeSamplesRequired 2))"
proof -
  let ?T = "genotype_array Int8 2 3 [[[0, 0, 0], [0, 0, 0]]]"
  let ?H1 = "[genotype_array Int8 3 1 [[[0], [0], [0]]]]"
  let ?H2 = "[genotype_array Int8 2 2 [[[0, 1], [0, 1]]]]"
  have a: "ploidy ?T \<noteq> 2" "n_haplotypes (haplotype_array 3 [[0, 0, 0]]) \<noteq> 2"
    "ploidy (?H1 ! 0) \<noteq> 2"
    by (simp_all add: genotype_array_def haplotype_array_def)
  have b: "ploidy (?H2 ! 0) = 2" "n_samples (?H2 ! 0) < 3" "n_samples (?H2 ! 0) = 2"
    by (simp_all add: genotype_array_def)
  show ?thesis
    using precondition_errors_without_effects [of ?T "genotype_array Int8 1 2 [[[0, 0]]]" "haplotype_array 3 [[0, 0, 0]]"
        "haplotype_array 1 [[0]]" ?H1 0 False]
      precondition_errors_without_effects [of ?T ?T "haplotype_array 3 [[0, 0, 0]]" "haplotype_array 1 [[0]]" ?H2 0 False]
      a b
    by metis
qed

text \<open>
  Claim C8. For diploid input with at least three samples, \<open>is_phased\<close> has the
  shape \<open>(n_variants, n_samples)\<close> and is false in columns 0 and 1, the parents, at
  every variant.
\<close>

theorem parent_columns_unphased:
  assumes "g < length h" "wf_garray (h ! g)" "ploidy (h ! g) = 2" "3 \<le> n_samples (h ! g)"
    "v < n_variants (h ! g)"
  shows "\<exists>h' g' ip. phase_progeny_by_transmission h g copy = (h', Inr (g', ip)) \<and>
           length ip = n_variants (h ! g) \<and> length (ip ! v) = n_samples (h ! g) \<and>
           \<not> ip ! v ! 0 \<and> \<not> ip ! v ! 1"
proof -
  obtain h' g' ip d where r: "phase_progeny_by_transmission h g copy = (h', Inr (g', ip))"
      "d = calls (h ! g) \<or> d = map (map (map to_int8)) (calls (h ! g))"
      "ip = snd (phase_progeny_by_transmission_int8 d)"
    using phase_cases [OF assms(1,3,4), of copy] by blast
  have len: "length (calls (h ! g)) = n_variants (h ! g)"
    using assms(2) by (rule wf_length)
  have row: "length (calls (h ! g) ! v) = n_samples (h ! g)"
    using assms(2,5) by (rule wf_row_length)
  have dl: "length d = n_variants (h ! g)" "length (d ! v) = n_samples (h ! g)"
    using r(2) len row assms(5) by auto
  have iv: "ip ! v = [False, False] @
              map (\<lambda>c. snd (phase_call (d ! v ! 0) (d ! v ! 1) c)) (drop 2 (d ! v))"
    unfolding r(3) using dl(1) assms(5) by (simp add: is_phased_row)
  have "length ip = n_variants (h ! g)"
    by (simp add: r(3) is_phased_shape dl(1))
  moreover have "length (ip ! v) = n_samples (h ! g)"
    using assms(4) by (simp add: iv dl(2))
  moreover have "\<not> ip ! v ! 0" "\<not> ip ! v ! 1"
    by (simp_all add: iv)
  ultimately show ?thesis
    using r(1) by blast
qed

theorem parent_columns_unphased_witness:
  "wf_garray ([genotype_array Int8 3 2 [[[1, 1], [0, 0], [0, 1]]]] ! 0) \<and>
   (\<exists>h' g' ip.
      phase_progeny_by_transmission [genotype_array Int8 3 2 [[[1, 1], [0, 0], [0, 1]]]] 0 True
        = (h', Inr (g', ip)) \<and>
      length ip = n_variants ([genotype_array Int8 3 2 [[[1, 1], [0, 0], [0, 1]]]] ! 0) \<and>
      length (ip ! 0) = n_samples ([genotype_array Int8 3 2 [[[1, 1], [0, 0], [0, 1]]]] ! 0) \<and>
      \<not> ip ! 0 ! 0 \<and> \<not> ip ! 0 ! 1) \<and>
   snd (phase_progeny_by_transmission [genotype_array Int8 3 2 [[[1, 1], [0, 0], [0, 1]]]] 0 True)
     = Inr (1, [[False, False, True]])"
proof -
  let ?H = "[genotype_array Int8 3 2 [[[1, 1], [0, 0], [0, 1]]]]"
  have g: "0 < length ?H"
    by simp
  have w: "wf_garray (?H ! 0)"
    by code_simp
  have p: "ploidy (?H ! 0) = 2" and n: "3 \<le> n_samples (?H ! 0)" and v: "0 < n_variants (?H ! 0)"
    by (simp_all add: genotype_array_def)
  have r: "snd (phase_progeny_by_transmission ?H 0 True) = Inr (1, [[False, False, True]])"
    by code_simp
  show ?thesis
    using parent_columns_unphased [OF g w p n v, of True] w r by blast
qed

text \<open>
  Claim C10. The returned genotype array has element type \<^verbatim>\<open>int8\<close>. Without
  \<open>copy\<close> and with an input of another element type, the returned array is a new
  one and the caller's array is as it was; without \<open>copy\<close> and with an
  \<^verbatim>\<open>int8\<close> input the returned array is the caller's. The caller's array differs
  after the call only in that last case.
\<close>

theorem astype_protects_caller_array:
  assumes "g < length h" "ploidy (h ! g) = 2" "3 \<le> n_samples (h ! g)"
  shows "\<exists>h' g' ip. phase_progeny_by_transmission h g copy = (h', Inr (g', ip)) \<and>
           g' < length h' \<and> dtype_of (h' ! g') = Int8 \<and>
           (\<not> copy \<and> dtype_of (h ! g) \<noteq> Int8 \<longrightarrow> h' ! g = h ! g \<and> g' \<noteq> g) \<and>
           (\<not> copy \<and> dtype_of (h ! g) = Int8 \<longrightarrow> g' = g) \<and>
           (h' ! g \<noteq> h ! g \<longrightarrow> \<not> copy \<and> dtype_of (h ! g) = Int8)"
  using phase_cases [OF assms, of copy] by metis

theorem astype_protects_caller_array_witness:
  "dtype_of ([genotype_array Int16 3 2 [[[1, 1], [0, 0], [0, 1]]]] ! 0) \<noteq> Int8 \<and>
   phase_progeny_by_transmission [genotype_array Int16 3 2 [[[1, 1], [0, 0], [0, 1]]]] 0 False
     = ([genotype_array Int16 3 2 [[[1, 1], [0, 0], [0, 1]]],
         genotype_array Int8 3 2 [[[1, 1], [0, 0], [1, 0]]]],
        Inr (1, [[False, False, True]])) \<and>
   phase_progeny_by_transmission [genotype_array Int8 3 2 [[[1, 1], [0, 0], [0, 1]]]] 0 False
     = ([genotype_array Int8 3 2 [[[1, 1], [0, 0], [1, 0]]]], Inr (0, [[False, False, True]])) \<and>
   (\<exists>h' g' ip.
      phase_progeny_by_transmission [genotype_array Int16 3 2 [[[1, 1], [0, 0], [0, 1]]]] 0 False
        = (h', Inr (g', ip)) \<and>
      dtype_of (h' ! g') = Int8 \<and> g' \<noteq> 0 \<and>
      h' ! 0 = [genotype_array Int16 3 2 [[[1, 1], [0, 0], [0, 1]]]] ! 0)"
proof -
  let ?H = "[genotype_array Int16 3 2 [[[1, 1], [0, 0], [0, 1]]]]"
  have g: "0 < length ?H"
    by simp
  have p: "ploidy (?H ! 0) = 2" and n: "3 \<le> n_samples (?H ! 0)"
    and d: "dtype_of (?H ! 0) \<noteq> Int8"
    by (simp_all add: genotype_array_def)
  have r: "phase_progeny_by_transmission ?H 0 False
     = ([genotype_array Int16 3 2 [[[1, 1], [0, 0], [0, 1]]],
         genotype_array Int8 3 2 [[[1, 1], [0, 0], [1, 0]]]],
        Inr (1, [[False, False, True]]))"
    by code_simp
  have r8: "phase_progeny_by_transmission [genotype_array Int8 3 2 [[[1, 1], [0, 0], [0, 1]]]] 0 False
     = ([genotype_array Int8 3 2 [[[1, 1], [0, 0], [1, 0]]]], Inr (0, [[False, False, True]]))"
    by code_simp
  have "\<exists>h' g' ip. phase_progeny_by_transmission ?H 0 False = (h', Inr (g', ip)) \<and>
      dtype_of (h' ! g') = Int8 \<and> g' \<noteq> 0 \<and> h' ! 0 = ?H ! 0"
    using astype_protects_caller_array [OF g p n, of False] d by blast
  then show ?thesis
    using d r r8 by blast
qed

end
